theory Spec2Isabelle
  imports Main "HOL-Library.Sublist"
begin

section \<open>The weather bar component (weather-bar.ts)\<close>

text \<open>
  A shallow embedding of the \<^verbatim>\<open>WeatherBar\<close> element: its properties, the tree that
  \<^verbatim>\<open>render\<close> builds, the style block of \<^verbatim>\<open>getColorStyles\<close>, the glyph of
  \<^verbatim>\<open>getWindBarb\<close> and the tooltip bookkeeping of \<^verbatim>\<open>update\<close>.

  Conventions.
  \<^item> A JavaScript number that the code computes with is an integer: a duration and the
    label spacing are an \<open>int\<close>, an index a \<open>nat\<close>. The grid cursor, which the code adds
    durations to, is a \<open>js_number\<close>: an integer-valued double or an infinity, with the
    rounding of double addition. A number that is only passed through (a temperature, the
    raw wind speed and direction) has the type parameter \<open>'n\<close>.
  \<^item> An array is a list and reading past its end gives \<open>None\<close> for \<^verbatim>\<open>undefined\<close>; a
    \<^verbatim>\<open>Map\<close> is the list of its entries in insertion order. An object used as a
    dictionary (\<^verbatim>\<open>labels\<close>, \<^verbatim>\<open>ICONS\<close>) is a plain object: a map of its own keys
    whose prototype is \<^verbatim>\<open>Object.prototype\<close>, and reading a key goes through both.
  \<^item> A thrown exception is the \<open>Inl\<close> of a sum.
  \<^item> A template result is a value of a record or datatype that keeps every hole of the
    template and drops the fixed markup around it.
\<close>

subsection \<open>JavaScript primitives used by the component\<close>

datatype js_error = TypeError

text \<open>\<^verbatim>\<open>xs[i]\<close>: reading past the end of an array gives \<^verbatim>\<open>undefined\<close>.\<close>

definition js_index :: "'a list \<Rightarrow> nat \<Rightarrow> 'a option" where
  "js_index xs i = (if i < length xs then Some (xs ! i) else None)"

text \<open>\<^verbatim>\<open>const { ... } = v\<close>: destructuring \<^verbatim>\<open>undefined\<close> throws a TypeError.\<close>

definition destructure :: "'a option \<Rightarrow> js_error + 'a" where
  "destructure v = (case v of None \<Rightarrow> Inl TypeError | Some x \<Rightarrow> Inr x)"

text \<open>
  \<^verbatim>\<open>a % b\<close> on integers: the remainder takes the sign of the dividend, and a zero
  divisor gives \<^verbatim>\<open>NaN\<close>, which is \<open>None\<close> here.
\<close>

definition js_rem :: "int \<Rightarrow> int \<Rightarrow> int option" where
  "js_rem a b = (if b = 0 then None else Some (sgn a * (\<bar>a\<bar> mod \<bar>b\<bar>)))"

subsubsection \<open>Numbers\<close>

text \<open>
  The values the grid cursor can take: it starts at 1 and only has integer-valued doubles
  added to it, so it is an integer-valued double or, after an overflow, an infinity.
\<close>

datatype js_number = Finite int | Infinity | Neg_Infinity

text \<open>The number of binary digits of a positive integer.\<close>

function bitlen :: "int \<Rightarrow> nat" where
  "bitlen n = (if n \<le> 0 then 0 else Suc (bitlen (n div 2)))"
  by pat_completeness auto
termination
  by (relation "measure nat") auto

declare bitlen.simps [simp del]

text \<open>
  The double nearest to an integer: the integer itself when it has at most 53 binary
  digits; otherwise its leading 53 digits, rounded to nearest with ties to the even
  one, and the infinity of its sign from \<open>2 ^ 1024\<close> on.
\<close>

definition to_double :: "int \<Rightarrow> js_number" where
  "to_double n =
     (let a = \<bar>n\<bar>; k = bitlen a in
      if k \<le> 53 then Finite n
      else
        let e = k - 53; m = a div 2 ^ e; r = a mod 2 ^ e;
            m' = (if 2 ^ e < 2 * r \<or> (2 * r = 2 ^ e \<and> odd m) then m + 1 else m)
        in if 2 ^ 1024 \<le> m' * 2 ^ e then (if n < 0 then Neg_Infinity else Infinity)
           else Finite (sgn n * (m' * 2 ^ e)))"

text \<open>
  \<^verbatim>\<open>x + d\<close> for the cursor \<open>x\<close> and a duration \<open>d\<close>, an integer that is a double
  (\<open>to_double d = Finite d\<close>): the exact sum, rounded to a double.
\<close>

definition js_add :: "js_number \<Rightarrow> int \<Rightarrow> js_number" where
  "js_add x d =
     (case x of
        Finite a \<Rightarrow> to_double (a + d)
      | Infinity \<Rightarrow> Infinity
      | Neg_Infinity \<Rightarrow> Neg_Infinity)"

text \<open>
  \<^verbatim>\<open>String(x)\<close>. Up to \<open>2 ^ 53\<close> in magnitude the text of an integer is its decimal
  digits, with a sign when negative. Beyond, it is the shortest decimal text that reads
  back as the same double, padded with zeros below \<^verbatim>\<open>1e21\<close> and in exponent notation
  from there on; these digits are not computed here, and the text is kept as
  \<open>Shortest_decimal\<close> of the number.
\<close>

datatype js_text = Text string | Shortest_decimal int

definition digit_char :: "int \<Rightarrow> char" where
  "digit_char d = char_of (48 + d)"

function digits :: "int \<Rightarrow> string" where
  "digits n = (if n < 10 then [digit_char n] else digits (n div 10) @ [digit_char (n mod 10)])"
  by pat_completeness auto
termination
  by (relation "measure nat") auto

declare digits.simps [simp del]

definition decimal :: "int \<Rightarrow> string" where
  "decimal n = (if n < 0 then CHR ''-'' # digits (- n) else digits n)"

definition js_String :: "js_number \<Rightarrow> js_text" where
  "js_String x =
     (case x of
        Finite n \<Rightarrow> if \<bar>n\<bar> \<le> 2 ^ 53 then Text (decimal n) else Shortest_decimal n
      | Infinity \<Rightarrow> Text ''Infinity''
      | Neg_Infinity \<Rightarrow> Text ''-Infinity'')"

subsubsection \<open>Reading a key of a plain object\<close>

text \<open>
  What \<^verbatim>\<open>obj[key]\<close> can give for an object whose own values are strings: nothing, a
  string, or a member inherited from \<^verbatim>\<open>Object.prototype\<close>, which is a built-in
  function (kept by its name) or, for \<^verbatim>\<open>__proto__\<close>, the prototype object itself.
\<close>

datatype js_value = JS_undefined | JS_string string | JS_function string | JS_Object_prototype

definition Object_prototype :: "string \<rightharpoonup> js_value" where
  "Object_prototype =
     map_of
       [(''constructor'', JS_function ''Object''),
        (''toString'', JS_function ''toString''),
        (''toLocaleString'', JS_function ''toLocaleString''),
        (''valueOf'', JS_function ''valueOf''),
        (''hasOwnProperty'', JS_function ''hasOwnProperty''),
        (''isPrototypeOf'', JS_function ''isPrototypeOf''),
        (''propertyIsEnumerable'', JS_function ''propertyIsEnumerable''),
        (''__defineGetter__'', JS_function ''__defineGetter__''),
        (''__defineSetter__'', JS_function ''__defineSetter__''),
        (''__lookupGetter__'', JS_function ''__lookupGetter__''),
        (''__lookupSetter__'', JS_function ''__lookupSetter__''),
        (''__proto__'', JS_Object_prototype)]"

text \<open>\<^verbatim>\<open>obj[key]\<close>: the own value if there is one, else the inherited member, else nothing.\<close>

definition js_get :: "(string \<rightharpoonup> string) \<Rightarrow> string \<Rightarrow> js_value" where
  "js_get obj key =
     (case obj key of
        Some v \<Rightarrow> JS_string v
      | None \<Rightarrow> (case Object_prototype key of Some m \<Rightarrow> m | None \<Rightarrow> JS_undefined))"

text \<open>
  \<^verbatim>\<open>'prefix' + v\<close>: the operand is converted to a string first. \<^verbatim>\<open>undefined\<close>
  converts to the text \<^verbatim>\<open>undefined\<close>, an object to \<^verbatim>\<open>[object Object]\<close>, and a built-in
  function to a text that begins with \<^verbatim>\<open>function\<close> and its name (the rest is written as
  V8 prints it).
\<close>

definition js_to_string :: "js_value \<Rightarrow> string" where
  "js_to_string v =
     (case v of
        JS_undefined \<Rightarrow> ''undefined''
      | JS_string s \<Rightarrow> s
      | JS_function f \<Rightarrow> ''function '' @ f @ ''() { [native code] }''
      | JS_Object_prototype \<Rightarrow> ''[object Object]'')"

subsection \<open>Properties of the element\<close>

text \<open>
  A condition span: the key and the duration, an integer that is a double
  (\<open>to_double d = Finite d\<close>; every integer up to \<open>2 ^ 53\<close> in magnitude is one).
\<close>

type_synonym ConditionSpan = "string \<times> int"

record 'n SegmentTemperature =
  hour :: string
  temperature :: 'n

record 'n SegmentWind =
  windSpeed :: string
  windSpeedRawMS :: 'n
  windDirection :: string
  windDirectionRaw :: 'n

record SegmentPrecipitation =
  precipitationAmount :: string

type_synonym ColorMap = "(string \<times> string) list"

record 'n WeatherBar =
  conditions :: "ConditionSpan list"
  temperatures :: "'n SegmentTemperature list"
  wind :: "'n SegmentWind list"
  precipitation :: "SegmentPrecipitation list"
  icons :: bool
  colors :: "ColorMap option"
  hide_hours :: bool
  hide_temperatures :: bool
  show_wind :: string
  show_precipitation_amounts :: bool
  label_spacing :: int
  labels :: "string \<rightharpoonup> string"

subsection \<open>The tree built by render\<close>

text \<open>The child of a bar segment: the icon span or the label span.\<close>

datatype condition_child = Condition_icon string | Condition_label js_value

record bar_segment =
  seg_class :: string
  gridColumnStart :: js_text
  gridColumnEnd :: js_text
  data_tippy_content :: js_value
  seg_child :: condition_child

text \<open>
  The \<^verbatim>\<open>svg\<close> of \<^verbatim>\<open>getWindBarb\<close>: the angle of \<^verbatim>\<open>rotate(...deg)\<close> and the speed
  handed to the glyph generator \<^verbatim>\<open>getWindBarbSVG\<close>, which is a library.
\<close>

record 'n barb_svg =
  rotate_deg :: 'n
  barb_speed :: 'n

datatype 'n wind_html = Wind_text string | Br | Barb_span string "'n barb_svg"

record 'n bar_block =
  hour_div :: "string option"
  temperature_div :: "'n option"
  wind_div :: "'n wind_html list"
  precipitation_div :: "string option"

record 'n rendered =
  colorStyles :: "string option"
  conditionBars :: "bar_segment list"
  barBlocks :: "'n bar_block list"

subsection \<open>The condition bar (render, lines 51 to 66)\<close>

text \<open>Lines 55 to 57: the icon name, from the table \<^verbatim>\<open>ICONS\<close> of conditions.ts.\<close>

definition resolve_icon :: "(string \<rightharpoonup> string) \<Rightarrow> string \<Rightarrow> string" where
  "resolve_icon ICONS key =
     (let icon = js_get ICONS key in
      if icon = JS_string key then ''mdi:weather-'' @ js_to_string icon
      else ''mdi:'' @ js_to_string icon)"

text \<open>One pass of the loop body: the segment pushed, and the new \<^verbatim>\<open>gridStart\<close>.\<close>

definition condition_bar ::
  "(string \<rightharpoonup> string) \<Rightarrow> 'n WeatherBar \<Rightarrow> js_number \<Rightarrow> ConditionSpan
   \<Rightarrow> bar_segment \<times> js_number" where
  "condition_bar ICONS c gridStart cond =
     (let label = js_get (labels c) (fst cond);
          icon = resolve_icon ICONS (fst cond);
          gridEnd = js_add gridStart (snd cond)
      in (\<lparr>seg_class = fst cond,
           gridColumnStart = js_String gridStart,
           gridColumnEnd = js_String gridEnd,
           data_tippy_content = label,
           seg_child = (if icons c then Condition_icon icon else Condition_label label)\<rparr>,
          gridEnd))"

text \<open>The \<^verbatim>\<open>for ... of\<close> loop, with the array built so far and the running cursor.\<close>

fun condition_loop ::
  "(string \<rightharpoonup> string) \<Rightarrow> 'n WeatherBar \<Rightarrow> ConditionSpan list \<Rightarrow> bar_segment list
   \<Rightarrow> js_number \<Rightarrow> bar_segment list \<times> js_number" where
  "condition_loop ICONS c [] bars gridStart = (bars, gridStart)"
| "condition_loop ICONS c (cond # rest) bars gridStart =
     (case condition_bar ICONS c gridStart cond of
        (bar, gridStart') \<Rightarrow> condition_loop ICONS c rest (bars @ [bar]) gridStart')"

definition render_conditionBars ::
  "(string \<rightharpoonup> string) \<Rightarrow> 'n WeatherBar \<Rightarrow> bar_segment list \<times> js_number" where
  "render_conditionBars ICONS c = condition_loop ICONS c (conditions c) [] (Finite 1)"

subsection \<open>The axis blocks (render, lines 68 to 101)\<close>

text \<open>Line 70, for the loop index \<open>i\<close>.\<close>

definition skipLabel :: "'n WeatherBar \<Rightarrow> nat \<Rightarrow> bool" where
  "skipLabel c i = (js_rem (int i - 1) (label_spacing c) \<noteq> Some 0)"

text \<open>Lines 141 to 148.\<close>

definition getWindBarb :: "'n \<Rightarrow> 'n \<Rightarrow> 'n barb_svg" where
  "getWindBarb speed direction = \<lparr>rotate_deg = direction, barb_speed = speed\<rparr>"

text \<open>Lines 73 to 75 and 80 to 86: the content of the wind cell.\<close>

definition wind_parts :: "'n WeatherBar \<Rightarrow> nat \<Rightarrow> 'n SegmentWind \<Rightarrow> 'n wind_html list" where
  "wind_parts c i w =
     (let showWindSpeed = ((show_wind c = ''true'' \<or> show_wind c = ''speed'') \<and> \<not> skipLabel c i);
          showWindDirection =
            ((show_wind c = ''true'' \<or> show_wind c = ''direction'') \<and> \<not> skipLabel c i);
          showWindBarb = (show_wind c = ''barb'' \<and> \<not> skipLabel c i)
      in (if showWindSpeed then [Wind_text (windSpeed w)] else [])
         @ (if showWindSpeed \<and> showWindDirection then [Br] else [])
         @ (if showWindDirection then [Wind_text (windDirection w)] else [])
         @ (if showWindBarb
            then [Barb_span (windSpeed w @ '' '' @ windDirection w)
                    (getWindBarb (windSpeedRawMS w) (windDirectionRaw w))]
            else []))"

text \<open>
  The loop body at index \<open>i\<close>: the three array reads in the order of the source, each
  destructured, and the block pushed.
\<close>

definition bar_block_at :: "'n WeatherBar \<Rightarrow> nat \<Rightarrow> js_error + 'n bar_block" where
  "bar_block_at c i =
     (let hideHours = (hide_hours c \<or> skipLabel c i);
          hideTemperature = (hide_temperatures c \<or> skipLabel c i);
          showPrecipitationAmounts = (show_precipitation_amounts c \<and> \<not> skipLabel c i)
      in case destructure (js_index (temperatures c) i) of
           Inl e \<Rightarrow> Inl e
         | Inr t \<Rightarrow>
            (case destructure (js_index (wind c) i) of
               Inl e \<Rightarrow> Inl e
             | Inr w \<Rightarrow>
                (case destructure (js_index (precipitation c) i) of
                   Inl e \<Rightarrow> Inl e
                 | Inr p \<Rightarrow>
                    Inr \<lparr>hour_div = (if hideHours then None else Some (hour t)),
                         temperature_div = (if hideTemperature then None else Some (temperature t)),
                         wind_div = wind_parts c i w,
                         precipitation_div =
                           (if showPrecipitationAmounts then Some (precipitationAmount p)
                            else None)\<rparr>)))"

text \<open>
  \<^verbatim>\<open>for (let i = 1; i < this.temperatures.length; i += 2)\<close>, with the blocks pushed so
  far. An exception of the body ends the loop.
\<close>

function axis_loop ::
  "'n WeatherBar \<Rightarrow> nat \<Rightarrow> 'n bar_block list \<Rightarrow> js_error + 'n bar_block list" where
  "axis_loop c i blocks =
     (if i < length (temperatures c)
      then (case bar_block_at c i of
              Inl e \<Rightarrow> Inl e
            | Inr b \<Rightarrow> axis_loop c (i + 2) (blocks @ [b]))
      else Inr blocks)"
  by pat_completeness auto
termination
  by (relation "measure (\<lambda>(c, i, blocks). length (temperatures c) - i)") auto

declare axis_loop.simps [simp del]

text \<open>
  The same loop with a record of its visits: \<open>visited\<close> holds the indices at which the
  body has been entered, and the second component is what \<open>axis_loop\<close> returns.
\<close>

function axis_loop_trace ::
  "'n WeatherBar \<Rightarrow> nat \<Rightarrow> nat list \<Rightarrow> 'n bar_block list
   \<Rightarrow> nat list \<times> (js_error + 'n bar_block list)" where
  "axis_loop_trace c i visited blocks =
     (if i < length (temperatures c)
      then (case bar_block_at c i of
              Inl e \<Rightarrow> (visited @ [i], Inl e)
            | Inr b \<Rightarrow> axis_loop_trace c (i + 2) (visited @ [i]) (blocks @ [b]))
      else (visited, Inr blocks))"
  by pat_completeness auto
termination
  by (relation "measure (\<lambda>(c, i, visited, blocks). length (temperatures c) - i)") auto

declare axis_loop_trace.simps [simp del]

text \<open>The odd positions from \<open>i\<close> up to \<open>n\<close>: the loop header alone, without the body.\<close>

function axis_indices :: "nat \<Rightarrow> nat \<Rightarrow> nat list" where
  "axis_indices n i = (if i < n then i # axis_indices n (i + 2) else [])"
  by pat_completeness auto
termination
  by (relation "measure (\<lambda>(n, i). n - i)") auto

declare axis_indices.simps [simp del]

subsection \<open>Color overrides (getColorStyles, lines 128 to 139)\<close>

text \<open>\<^verbatim>\<open>vars.join(' ')\<close>.\<close>

fun join_space :: "string list \<Rightarrow> string" where
  "join_space [] = []"
| "join_space [v] = v"
| "join_space (v # vs) = v @ '' '' @ join_space vs"

definition color_vars :: "ColorMap \<Rightarrow> string list" where
  "color_vars cm = map (\<lambda>(key, color). ''--color-'' @ key @ '': '' @ color @ '';'') cm"

text \<open>
  The result is \<open>None\<close> for \<^verbatim>\<open>null\<close>, and otherwise the declarations placed inside
  the rule \<^verbatim>\<open>.main > .bar { ... }\<close> of the style element.
\<close>

definition getColorStyles :: "ColorMap \<Rightarrow> string option" where
  "getColorStyles cm = (if length cm = 0 then None else Some (join_space (color_vars cm)))"

subsection \<open>render\<close>

definition render :: "(string \<rightharpoonup> string) \<Rightarrow> 'n WeatherBar \<Rightarrow> js_error + 'n rendered" where
  "render ICONS c =
     (let bars = fst (render_conditionBars ICONS c) in
      case axis_loop c 1 [] of
        Inl e \<Rightarrow> Inl e
      | Inr blocks \<Rightarrow>
          Inr \<lparr>colorStyles = (case colors c of None \<Rightarrow> None | Some cm \<Rightarrow> getColorStyles cm),
               conditionBars = bars,
               barBlocks = blocks\<rparr>)"

subsection \<open>Tooltips (update, lines 117 to 126)\<close>

text \<open>
  The tooltip library is outside the repository. Its documented behaviour is modelled:
  \<^verbatim>\<open>tippy(elements, props)\<close> makes one new instance for each element, in order, and
  \<^verbatim>\<open>destroy\<close> ends an instance. An element of \<^verbatim>\<open>.bar > div\<close> is the position of a
  segment in the bar together with the segment rendered there. The library's state is
  the counter for new instances, the instances alive, and the calls made so far. The
  options of the call (\<^verbatim>\<open>appendTo\<close>, \<^verbatim>\<open>touch\<close>) configure how a tooltip is shown
  and are not part of this state.
\<close>

type_synonym bar_element = "nat \<times> bar_segment"

record Instance =
  tip_id :: nat
  reference :: bar_element

datatype tippy_call = Destroy nat | Create nat bar_element

record tippy_state =
  next_id :: nat
  alive :: "Instance list"
  calls :: "tippy_call list"

definition destroy :: "Instance \<Rightarrow> tippy_state \<Rightarrow> tippy_state" where
  "destroy t w =
     w\<lparr>alive := filter (\<lambda>u. tip_id u \<noteq> tip_id t) (alive w),
       calls := calls w @ [Destroy (tip_id t)]\<rparr>"

fun tippy :: "bar_element list \<Rightarrow> tippy_state \<Rightarrow> Instance list \<times> tippy_state" where
  "tippy [] w = ([], w)"
| "tippy (el # els) w =
     (let t = \<lparr>tip_id = next_id w, reference = el\<rparr>;
          w' = w\<lparr>next_id := next_id w + 1, alive := alive w @ [t],
                 calls := calls w @ [Create (next_id w) el]\<rparr>
      in case tippy els w' of (ts, w'') \<Rightarrow> (t # ts, w''))"

text \<open>\<^verbatim>\<open>this.renderRoot.querySelectorAll('.bar > div')\<close> on the tree just rendered.\<close>

definition bar_elements :: "'n rendered \<Rightarrow> bar_element list" where
  "bar_elements r = enumerate 0 (conditionBars r)"

text \<open>
  \<^verbatim>\<open>update\<close> on the element and its private field \<^verbatim>\<open>tips\<close>: the base class renders
  (an exception of render leaves the method there), then every stored instance is
  destroyed, then the new instances are made and stored.
\<close>

definition update ::
  "(string \<rightharpoonup> string) \<Rightarrow> 'n WeatherBar \<Rightarrow> Instance list \<times> tippy_state
   \<Rightarrow> js_error + (Instance list \<times> tippy_state)" where
  "update ICONS c st =
     (case render ICONS c of
        Inl e \<Rightarrow> Inl e
      | Inr r \<Rightarrow>
          (let w1 = fold destroy (fst st) (snd st)
           in Inr (tippy (bar_elements r) w1)))"

subsection \<open>Tooltips across updates\<close>

text \<open>
  New instances get identifiers that no stored or living instance has: the counter of the
  library is above all of them.
\<close>

definition tips_fresh :: "Instance list \<times> tippy_state \<Rightarrow> bool" where
  "tips_fresh st = list_all (\<lambda>t. tip_id t < next_id (snd st)) (fst st @ alive (snd st))"

text \<open>The element as constructed (\<^verbatim>\<open>tips = []\<close>), with a library that has made nothing.\<close>

definition no_tips :: "Instance list \<times> tippy_state" where
  "no_tips = ([], \<lparr>next_id = 0, alive = [], calls = []\<rparr>)"

text \<open>
  The host updates the element once for each snapshot of its properties; an update that
  throws leaves the field \<^verbatim>\<open>tips\<close> and the library as they were.
\<close>

fun updates ::
  "(string \<rightharpoonup> string) \<Rightarrow> 'n WeatherBar list \<Rightarrow> Instance list \<times> tippy_state
   \<Rightarrow> Instance list \<times> tippy_state" where
  "updates ICONS [] st = st"
| "updates ICONS (c # cs) st =
     updates ICONS cs (case update ICONS c st of Inl e \<Rightarrow> st | Inr st' \<Rightarrow> st')"

subsection \<open>Example inputs\<close>

definition bar_example :: "int WeatherBar" where
  "bar_example =
     \<lparr>conditions = [(''sunny'', 2), (''rainy'', 1)],
      temperatures = [], wind = [], precipitation = [],
      icons = False, colors = None, hide_hours = False, hide_temperatures = False,
      show_wind = ''false'', show_precipitation_amounts = False, label_spacing = 2,
      labels = [''sunny'' \<mapsto> ''Sunny'', ''rainy'' \<mapsto> ''Rainy'']\<rparr>"

definition slot :: "int \<Rightarrow> int SegmentTemperature" where
  "slot k = \<lparr>hour = decimal k, temperature = 10 + k\<rparr>"

definition gust :: "int \<Rightarrow> int SegmentWind" where
  "gust k = \<lparr>windSpeed = ''5 m/s'', windSpeedRawMS = 5, windDirection = ''NE'',
             windDirectionRaw = 45\<rparr>"

definition rain :: "int \<Rightarrow> SegmentPrecipitation" where
  "rain k = \<lparr>precipitationAmount = ''1 mm''\<rparr>"

text \<open>
  An element with one entry in each of the three axis arrays for every number of \<open>ks\<close>,
  and no conditions.
\<close>

definition axis_example :: "int list \<Rightarrow> int WeatherBar" where
  "axis_example ks =
     \<lparr>conditions = [],
      temperatures = map slot ks, wind = map gust ks, precipitation = map rain ks,
      icons = False, colors = None, hide_hours = False, hide_temperatures = False,
      show_wind = ''true'', show_precipitation_amounts = True, label_spacing = 2,
      labels = Map.empty\<rparr>"

text \<open>Four entries and a label spacing of 4: the slot of index 3 is skipped.\<close>

definition spaced_example :: "int WeatherBar" where
  "spaced_example = (axis_example [0, 1, 2, 3]) \<lparr>label_spacing := 4\<rparr>"

text \<open>Two entries, with the wind shown as a barb.\<close>

definition barb_example :: "int WeatherBar" where
  "barb_example = (axis_example [0, 1]) \<lparr>show_wind := ''barb''\<rparr>"

text \<open>An icon table, and bars with a condition that neither it nor the labels have.\<close>

definition icons_example :: "string \<rightharpoonup> string" where
  "icons_example = [''sunny'' \<mapsto> ''sunny'', ''clear-night'' \<mapsto> ''night'']"

definition icon_bar_example :: "int WeatherBar" where
  "icon_bar_example = bar_example \<lparr>conditions := [(''sunny'', 2), (''hazy'', 1)], icons := True\<rparr>"

definition hazy_example :: "int WeatherBar" where
  "hazy_example = bar_example \<lparr>conditions := [(''hazy'', 1)]\<rparr>"

text \<open>A bar whose condition is the name of a member of \<^verbatim>\<open>Object.prototype\<close>.\<close>

definition inherited_example :: "int WeatherBar" where
  "inherited_example = bar_example \<lparr>conditions := [(''constructor'', 1)]\<rparr>"

text \<open>A bar whose first duration is \<open>2 ^ 53\<close>.\<close>

definition wide_example :: "int WeatherBar" where
  "wide_example = bar_example \<lparr>conditions := [(''sunny'', 9007199254740992), (''rainy'', 1)]\<rparr>"

text \<open>The example bar with one color override.\<close>

definition sunny_colors_example :: "int WeatherBar" where
  "sunny_colors_example = bar_example \<lparr>colors := Some [(''sunny'', ''#ffcc00'')]\<rparr>"

text \<open>The tooltips after the first update of the example bar.\<close>

definition two_tips :: "Instance list \<times> tippy_state" where
  "two_tips =
     (let sunny = (0, \<lparr>seg_class = ''sunny'', gridColumnStart = Text ''1'',
                        gridColumnEnd = Text ''3'',
                        data_tippy_content = JS_string ''Sunny'',
                        seg_child = Condition_label (JS_string ''Sunny'')\<rparr>);
          rainy = (1, \<lparr>seg_class = ''rainy'', gridColumnStart = Text ''3'',
                        gridColumnEnd = Text ''4'',
                        data_tippy_content = JS_string ''Rainy'',
                        seg_child = Condition_label (JS_string ''Rainy'')\<rparr>);
          ts = [\<lparr>tip_id = 0, reference = sunny\<rparr>, \<lparr>tip_id = 1, reference = rainy\<rparr>]
      in (ts, \<lparr>next_id = 2, alive = ts, calls = [Create 0 sunny, Create 1 rainy]\<rparr>))"

section \<open>Properties\<close>

subsection \<open>Numbers and texts\<close>

lemma bitlen_le: "bitlen n \<le> k \<longleftrightarrow> n < 2 ^ k"
proof (induction k arbitrary: n)
  case 0
  show ?case
    by (subst bitlen.simps) simp
next
  case (Suc k)
  define x :: int where "x = 2 ^ k"
  have x: "0 < x"
    by (simp add: x_def)
  have "bitlen n \<le> Suc k \<longleftrightarrow> n \<le> 0 \<or> bitlen (n div 2) \<le> k"
    by (subst bitlen.simps) simp
  also have "\<dots> \<longleftrightarrow> n \<le> 0 \<or> n div 2 < x"
    by (simp add: Suc.IH x_def)
  also have "\<dots> \<longleftrightarrow> n < 2 * x"
    using x by presburger
  finally show ?case
    by (simp add: x_def)
qed

lemma bitlen_eq: "2 ^ k \<le> n \<Longrightarrow> n < 2 ^ Suc k \<Longrightarrow> bitlen n = Suc k"
  using bitlen_le [of n k] bitlen_le [of n "Suc k"] by simp

lemma to_double_exact: "\<bar>n\<bar> < 2 ^ 53 \<Longrightarrow> to_double n = Finite n"
  by (simp add: to_double_def bitlen_le Let_def)

lemma js_add_exact: "\<bar>a + d\<bar> < 2 ^ 53 \<Longrightarrow> js_add (Finite a) d = Finite (a + d)"
  by (simp add: js_add_def to_double_exact)

lemma js_String_safe: "\<bar>n\<bar> \<le> 2 ^ 53 \<Longrightarrow> js_String (Finite n) = Text (decimal n)"
  by (simp add: js_String_def)

lemma decimal_small:
  "decimal 1 = ''1''" "decimal 2 = ''2''" "decimal 3 = ''3''" "decimal 4 = ''4''"
  by code_simp+

lemma js_String_small:
  "js_String (Finite 1) = Text ''1''" "js_String (Finite 2) = Text ''2''"
  "js_String (Finite 3) = Text ''3''" "js_String (Finite 4) = Text ''4''"
  by (simp_all add: js_String_safe decimal_small)

lemma js_add_small:
  "js_add (Finite 1) 1 = Finite 2" "js_add (Finite 1) 2 = Finite 3"
  "js_add (Finite 3) 1 = Finite 4"
  by (simp_all add: js_add_exact)

text \<open>The sum \<open>1 + 2 ^ 53\<close> lies half way between two doubles and rounds to the even one.\<close>

lemma to_double_above_2_53: "to_double 9007199254740993 = Finite 9007199254740992"
proof -
  have "bitlen 9007199254740993 = Suc 53"
    by (rule bitlen_eq) simp_all
  then show ?thesis
    by (simp add: to_double_def Let_def)
qed

lemma to_double_2_53: "to_double 9007199254740992 = Finite 9007199254740992"
proof -
  have "bitlen 9007199254740992 = Suc 53"
    by (rule bitlen_eq) simp_all
  then show ?thesis
    by (simp add: to_double_def Let_def)
qed

lemma decimal_2_53: "decimal 9007199254740992 = ''9007199254740992''"
  by code_simp

subsection \<open>The loop over the conditions\<close>

lemma condition_loop_append:
  "condition_loop ICONS c conds bars g =
     (bars @ fst (condition_loop ICONS c conds [] g), snd (condition_loop ICONS c conds [] g))"
proof (induction conds arbitrary: bars g)
  case Nil
  show ?case by simp
next
  case (Cons cond rest)
  obtain bar g' where cb: "condition_bar ICONS c g cond = (bar, g')"
    by (cases "condition_bar ICONS c g cond")
  have "condition_loop ICONS c (cond # rest) bars g = condition_loop ICONS c rest (bars @ [bar]) g'"
    by (simp add: cb)
  also have "\<dots> = ((bars @ [bar]) @ fst (condition_loop ICONS c rest [] g'),
                    snd (condition_loop ICONS c rest [] g'))"
    by (rule Cons.IH)
  also have "\<dots> = (bars @ fst (condition_loop ICONS c rest [bar] g'),
                    snd (condition_loop ICONS c rest [bar] g'))"
    using Cons.IH [of "[bar]" g'] by simp
  also have "\<dots> = (bars @ fst (condition_loop ICONS c (cond # rest) [] g),
                    snd (condition_loop ICONS c (cond # rest) [] g))"
    by (simp add: cb)
  finally show ?case .
qed

lemma condition_loop_Cons:
  "fst (condition_loop ICONS c (cond # rest) [] g) =
     fst (condition_bar ICONS c g cond)
       # fst (condition_loop ICONS c rest [] (js_add g (snd cond)))"
  "snd (condition_loop ICONS c (cond # rest) [] g) =
     snd (condition_loop ICONS c rest [] (js_add g (snd cond)))"
  using condition_loop_append [of ICONS c rest "[fst (condition_bar ICONS c g cond)]"
      "js_add g (snd cond)"]
  by (simp_all add: condition_bar_def Let_def)

declare condition_loop.simps(2) [simp del]

lemma condition_loop_length:
  "length (fst (condition_loop ICONS c conds [] g)) = length conds"
  by (induction conds arbitrary: g) (simp_all add: condition_loop_Cons)

text \<open>Class, tooltip and child of a segment do not depend on the cursor.\<close>

lemma condition_loop_segment:
  "i < length conds \<Longrightarrow>
   seg_class (fst (condition_loop ICONS c conds [] g) ! i) = fst (conds ! i)
   \<and> data_tippy_content (fst (condition_loop ICONS c conds [] g) ! i)
       = js_get (labels c) (fst (conds ! i))
   \<and> seg_child (fst (condition_loop ICONS c conds [] g) ! i)
       = (if icons c then Condition_icon (resolve_icon ICONS (fst (conds ! i)))
          else Condition_label (js_get (labels c) (fst (conds ! i))))"
proof (induction conds arbitrary: i g)
  case Nil
  then show ?case by simp
next
  case (Cons cond rest)
  show ?case
  proof (cases i)
    case 0
    then show ?thesis
      by (simp add: condition_loop_Cons condition_bar_def Let_def)
  next
    case (Suc j)
    with Cons.prems have "j < length rest" by simp
    from Cons.IH [OF this, of "js_add g (snd cond)"] Suc show ?thesis
      by (simp add: condition_loop_Cons)
  qed
qed

text \<open>While the cursor stays below \<open>2 ^ 53\<close>, every addition is exact.\<close>

lemma condition_loop_cursor:
  "\<forall>cond \<in> set conds. 0 \<le> snd cond \<Longrightarrow> 0 \<le> g \<Longrightarrow> g + sum_list (map snd conds) < 2 ^ 53 \<Longrightarrow>
   snd (condition_loop ICONS c conds [] (Finite g)) = Finite (g + sum_list (map snd conds))"
proof (induction conds arbitrary: g)
  case Nil
  then show ?case by simp
next
  case (Cons cond rest)
  have rest_nonneg: "0 \<le> sum_list (map snd rest)"
    using Cons.prems(1) by (intro sum_list_nonneg) auto
  with Cons.prems have step: "js_add (Finite g) (snd cond) = Finite (g + snd cond)"
    by (intro js_add_exact) auto
  from Cons.prems have "snd (condition_loop ICONS c rest [] (Finite (g + snd cond)))
      = Finite (g + snd cond + sum_list (map snd rest))"
    by (intro Cons.IH) (auto simp: add.assoc)
  then show ?case
    by (simp add: condition_loop_Cons step add.assoc)
qed

lemma condition_loop_nth:
  "\<forall>cond \<in> set conds. 0 \<le> snd cond \<Longrightarrow> 0 \<le> g \<Longrightarrow> g + sum_list (map snd conds) < 2 ^ 53 \<Longrightarrow>
   i < length conds \<Longrightarrow>
   fst (condition_loop ICONS c conds [] (Finite g)) ! i =
     fst (condition_bar ICONS c (Finite (g + sum_list (map snd (take i conds)))) (conds ! i))"
proof (induction conds arbitrary: i g)
  case Nil
  then show ?case by simp
next
  case (Cons cond rest)
  have rest_nonneg: "0 \<le> sum_list (map snd rest)"
    using Cons.prems(1) by (intro sum_list_nonneg) auto
  with Cons.prems have step: "js_add (Finite g) (snd cond) = Finite (g + snd cond)"
    by (intro js_add_exact) auto
  show ?case
  proof (cases i)
    case 0
    then show ?thesis by (simp add: condition_loop_Cons)
  next
    case (Suc j)
    with Cons.prems have "j < length rest" by simp
    with Cons.prems have "fst (condition_loop ICONS c rest [] (Finite (g + snd cond))) ! j =
        fst (condition_bar ICONS c (Finite (g + snd cond + sum_list (map snd (take j rest))))
          (rest ! j))"
      by (intro Cons.IH) (auto simp: add.assoc)
    with Suc show ?thesis
      by (simp add: condition_loop_Cons step add.assoc)
  qed
qed

subsection \<open>Claim C1: the columns of the condition bar\<close>

text \<open>
  Claim C1 says that for all positive durations each segment ends at its start plus its
  duration and the bar is as wide as the durations sum to. The cursor is a double: with
  the durations \<open>2 ^ 53\<close> and 1, both positive and both doubles, the sum \<open>1 + 2 ^ 53\<close>
  rounds to \<open>2 ^ 53\<close>, and adding 1 again changes nothing. The first segment ends at
  \<open>2 ^ 53\<close>, not at \<open>1 + 2 ^ 53\<close>; the second starts and ends at the same column
  although its duration is 1; and the cursor ends at \<open>2 ^ 53\<close>, while 1 plus the sum of
  the durations is \<open>2 ^ 53 + 2\<close>.
\<close>

theorem condition_bar_columns_counterexample:
  "list_all (\<lambda>cond. 0 < snd cond \<and> to_double (snd cond) = Finite (snd cond))
     (conditions wide_example)
   \<and> map (\<lambda>b. (gridColumnStart b, gridColumnEnd b))
         (fst (render_conditionBars Map.empty wide_example))
       = [(Text ''1'', Text ''9007199254740992''),
          (Text ''9007199254740992'', Text ''9007199254740992'')]
   \<and> snd (render_conditionBars Map.empty wide_example) = Finite 9007199254740992
   \<and> 1 + sum_list (map snd (conditions wide_example)) = 9007199254740994
   \<and> decimal (1 + 9007199254740992) \<noteq> ''9007199254740992''"
proof -
  have "decimal (1 + 9007199254740992) = ''9007199254740993''"
    by code_simp
  then show ?thesis
    by (simp add: wide_example_def bar_example_def render_conditionBars_def condition_loop_Cons
        condition_bar_def Let_def js_add_def js_String_def to_double_above_2_53 to_double_2_53
        to_double_exact decimal_small decimal_2_53)
qed

text \<open>
  Claim C1, amended. For conditions with positive durations whose columns stay below
  \<open>2 ^ 53\<close> (1 plus the sum of the durations is below \<open>2 ^ 53\<close>), the first segment starts
  at grid column 1; the segment of span \<open>i\<close> starts at the cursor (1 plus the durations
  before it) and ends at its start plus its own duration, both written in decimal digits;
  the end of each segment is the start of the next; every segment lies within the columns
  from 1 to 1 plus the sum of the durations, where the last segment ends and the cursor
  stands after the loop, so the bar is as many columns wide as the durations sum to. The
  conditions sunny for 2 and rainy for 1 give the columns 1 to 3 and 3 to 4.
\<close>

theorem condition_bar_columns:
  assumes pos: "\<forall>cond \<in> set (conditions c). 0 < snd cond"
    and safe: "1 + sum_list (map snd (conditions c)) < 2 ^ 53"
  shows "(let conds = conditions c;
              bars = fst (render_conditionBars ICONS c);
              cursor = (\<lambda>i. 1 + sum_list (map snd (take i conds)))
          in length bars = length conds
           \<and> (conds \<noteq> [] \<longrightarrow> gridColumnStart (bars ! 0) = Text ''1'')
           \<and> (\<forall>i < length conds.
                 gridColumnStart (bars ! i) = Text (decimal (cursor i))
               \<and> gridColumnEnd (bars ! i) = Text (decimal (cursor i + snd (conds ! i)))
               \<and> 1 \<le> cursor i \<and> cursor i < cursor i + snd (conds ! i)
               \<and> cursor i + snd (conds ! i) \<le> 1 + sum_list (map snd conds))
           \<and> (\<forall>i. Suc i < length conds \<longrightarrow>
                 gridColumnEnd (bars ! i) = gridColumnStart (bars ! Suc i))
           \<and> snd (render_conditionBars ICONS c) = Finite (1 + sum_list (map snd conds))
           \<and> (conds \<noteq> [] \<longrightarrow>
                 gridColumnEnd (last bars) = Text (decimal (1 + sum_list (map snd conds))))
           \<and> (\<forall>r. render ICONS c = Inr r \<longrightarrow> conditionBars r = bars)
           \<and> (conds = [(''sunny'', 2), (''rainy'', 1)] \<longrightarrow>
                 map (\<lambda>b. (gridColumnStart b, gridColumnEnd b)) bars
                   = [(Text ''1'', Text ''3''), (Text ''3'', Text ''4'')]))"
proof -
  define conds where "conds = conditions c"
  define bars where "bars = fst (render_conditionBars ICONS c)"
  define cursor where "cursor = (\<lambda>i. 1 + sum_list (map snd (take i conds)))"
  define total where "total = 1 + sum_list (map snd conds)"
  have bars: "bars = fst (condition_loop ICONS c conds [] (Finite 1))"
    by (simp add: bars_def conds_def render_conditionBars_def)
  have nonneg: "\<forall>cond \<in> set conds. 0 \<le> snd cond"
    using pos by (auto simp: conds_def intro: less_imp_le)
  have bound: "1 + sum_list (map snd conds) < 2 ^ 53"
    using safe by (simp add: conds_def)
  have sum_nonneg: "0 \<le> sum_list (map snd xs)" if "set xs \<subseteq> set conds" for xs
    using that nonneg by (intro sum_list_nonneg) auto
  have len: "length bars = length conds"
    by (simp add: bars condition_loop_length)
  have step: "cursor (Suc i) = cursor i + snd (conds ! i)" if "i < length conds" for i
    using that by (simp add: cursor_def take_Suc_conv_app_nth)
  have low: "1 \<le> cursor i" for i
    using sum_nonneg [of "take i conds"] by (auto simp: cursor_def dest: in_set_takeD)
  have grow: "cursor i < cursor i + snd (conds ! i)" if "i < length conds" for i
    using that pos by (simp add: conds_def)
  have high: "cursor i + snd (conds ! i) \<le> total" if "i < length conds" for i
  proof -
    have "sum_list (map snd conds)
            = sum_list (map snd (take (Suc i) conds)) + sum_list (map snd (drop (Suc i) conds))"
      by (metis append_take_drop_id map_append sum_list_append)
    moreover have "0 \<le> sum_list (map snd (drop (Suc i) conds))"
      by (rule sum_nonneg) (auto dest: in_set_dropD)
    ultimately show ?thesis
      using step [OF that] by (simp add: cursor_def total_def)
  qed
  have small: "\<bar>cursor i\<bar> \<le> 2 ^ 53" "\<bar>cursor i + snd (conds ! i)\<bar> < 2 ^ 53"
    if "i < length conds" for i
    using low [of i] grow [OF that] high [OF that] bound by (simp_all add: total_def)
  have segment: "bars ! i = fst (condition_bar ICONS c (Finite (cursor i)) (conds ! i))"
    if "i < length conds" for i
    unfolding bars cursor_def using nonneg bound that
    by (intro condition_loop_nth) simp_all
  have start: "gridColumnStart (bars ! i) = Text (decimal (cursor i))"
    if "i < length conds" for i
    using small(1) [OF that] by (simp add: segment [OF that] condition_bar_def Let_def js_String_safe)
  have fin: "gridColumnEnd (bars ! i) = Text (decimal (cursor i + snd (conds ! i)))"
    if "i < length conds" for i
    using small(2) [OF that]
    by (simp add: segment [OF that] condition_bar_def Let_def js_add_exact js_String_safe)
  have first: "gridColumnStart (bars ! 0) = Text ''1''" if "conds \<noteq> []"
    using that start [of 0] by (simp add: cursor_def decimal_small)
  have contiguous: "gridColumnEnd (bars ! i) = gridColumnStart (bars ! Suc i)"
    if "Suc i < length conds" for i
    using that start [of "Suc i"] fin [of i] step [of i] by simp
  have cursor_end: "snd (render_conditionBars ICONS c) = Finite total"
    unfolding render_conditionBars_def conds_def [symmetric] total_def
    using nonneg bound by (intro condition_loop_cursor) simp_all
  have final: "gridColumnEnd (last bars) = Text (decimal total)" if "conds \<noteq> []"
  proof -
    from that have i: "length conds - 1 < length conds" and "bars \<noteq> []"
      using len by auto
    then have "last bars = bars ! (length conds - 1)"
      by (simp add: last_conv_nth len)
    moreover from that have "cursor (Suc (length conds - 1)) = total"
      by (simp add: cursor_def total_def)
    ultimately show ?thesis
      using fin [OF i] step [OF i] by simp
  qed
  have rendered: "conditionBars r = bars" if "render ICONS c = Inr r" for r
    using that by (auto simp: render_def bars_def Let_def split: sum.splits)
  have example: "map (\<lambda>b. (gridColumnStart b, gridColumnEnd b)) bars
      = [(Text ''1'', Text ''3''), (Text ''3'', Text ''4'')]"
    if "conds = [(''sunny'', 2), (''rainy'', 1)]"
    by (simp add: bars that condition_loop_Cons condition_bar_def Let_def js_String_small
        js_add_small)
  show ?thesis
    unfolding Let_def conds_def [symmetric] bars_def [symmetric]
    using len first start fin low grow high contiguous cursor_end final rendered example
    unfolding cursor_def total_def
    by (intro conjI allI impI) blast+
qed

theorem condition_bar_columns_witness:
  "list_all (\<lambda>cond. 0 < snd cond) (conditions bar_example)
   \<and> 1 + sum_list (map snd (conditions bar_example)) < 2 ^ 53
   \<and> map (\<lambda>b. (gridColumnStart b, gridColumnEnd b)) (fst (render_conditionBars Map.empty bar_example))
       = [(Text ''1'', Text ''3''), (Text ''3'', Text ''4'')]
   \<and> snd (render_conditionBars Map.empty bar_example) = Finite 4"
  using condition_bar_columns [of bar_example Map.empty]
  by (simp add: bar_example_def Let_def)

subsection \<open>The axis loop\<close>

lemma js_error_TypeError: "(e :: js_error) = TypeError"
  by (cases e) simp

lemma axis_indices_eq: "axis_indices n i = map (\<lambda>k. i + 2 * k) [0..<(n + 1 - i) div 2]"
proof (induction n i rule: axis_indices.induct)
  case (1 n i)
  show ?case
  proof (cases "i < n")
    case True
    then have count: "(n + 1 - i) div 2 = Suc ((n + 1 - (i + 2)) div 2)"
      by arith
    have "axis_indices n i = i # axis_indices n (i + 2)"
      using True by (subst axis_indices.simps) simp
    also have "\<dots> = i # map (\<lambda>k. i + 2 + 2 * k) [0..<(n + 1 - (i + 2)) div 2]"
      using "1.IH" [OF True] by simp
    also have "\<dots> = map (\<lambda>k. i + 2 * k) [0..<Suc ((n + 1 - (i + 2)) div 2)]"
      by (simp add: map_upt_Suc del: upt_Suc)
    finally show ?thesis
      by (simp only: count)
  next
    case False
    then have "(n + 1 - i) div 2 = 0"
      by arith
    moreover have "axis_indices n i = []"
      using False by (subst axis_indices.simps) simp
    ultimately show ?thesis
      by simp
  qed
qed

lemma axis_indices_from_1: "axis_indices n 1 = map (\<lambda>k. 2 * k + 1) [0..<n div 2]"
  by (simp add: axis_indices_eq add.commute)

lemma set_axis_indices: "set (axis_indices n 1) = {i. odd i \<and> i < n}"
proof (intro set_eqI iffI)
  fix i
  assume "i \<in> set (axis_indices n 1)"
  then obtain k where "k < n div 2" "i = 2 * k + 1"
    unfolding axis_indices_from_1 by auto
  then show "i \<in> {i. odd i \<and> i < n}"
    by simp
next
  fix i
  assume "i \<in> {i. odd i \<and> i < n}"
  then have "odd i" "i < n" by simp_all
  then obtain k where k: "i = 2 * k + 1"
    by (auto elim: oddE)
  with \<open>i < n\<close> have "k < n div 2" by arith
  with k show "i \<in> set (axis_indices n 1)"
    unfolding axis_indices_from_1 by simp
qed

lemmas axis_indices_from_Suc_0 = axis_indices_from_1 [unfolded One_nat_def]

lemmas set_axis_indices_Suc_0 = set_axis_indices [unfolded One_nat_def]

lemma bar_block_at_Inr_iff:
  "bar_block_at c i = Inr b \<longleftrightarrow>
     i < length (temperatures c) \<and> i < length (wind c) \<and> i < length (precipitation c)
     \<and> b = \<lparr>hour_div = (if hide_hours c \<or> skipLabel c i then None
                         else Some (hour (temperatures c ! i))),
            temperature_div = (if hide_temperatures c \<or> skipLabel c i then None
                               else Some (temperature (temperatures c ! i))),
            wind_div = wind_parts c i (wind c ! i),
            precipitation_div =
              (if show_precipitation_amounts c \<and> \<not> skipLabel c i
               then Some (precipitationAmount (precipitation c ! i)) else None)\<rparr>"
  by (auto simp: bar_block_at_def js_index_def destructure_def Let_def)

lemma axis_loop_Inr:
  "axis_loop c i blocks = Inr bs \<Longrightarrow>
   \<exists>new. bs = blocks @ new
     \<and> list_all2 (\<lambda>j b. bar_block_at c j = Inr b) (axis_indices (length (temperatures c)) i) new"
proof (induction c i blocks rule: axis_loop.induct)
  case (1 c i blocks)
  show ?case
  proof (cases "i < length (temperatures c)")
    case False
    with "1.prems" show ?thesis
      by (subst axis_indices.simps) (simp add: axis_loop.simps [of c i])
  next
    case True
    with "1.prems" obtain b where b: "bar_block_at c i = Inr b"
      and rest: "axis_loop c (i + 2) (blocks @ [b]) = Inr bs"
      by (auto simp: axis_loop.simps [of c i] split: sum.splits)
    from "1.IH" [OF True b rest] obtain new where
      "bs = (blocks @ [b]) @ new"
      "list_all2 (\<lambda>j b. bar_block_at c j = Inr b) (axis_indices (length (temperatures c)) (i + 2)) new"
      by blast
    with True b show ?thesis
      by (subst axis_indices.simps) (auto intro: exI [of _ "b # new"])
  qed
qed

lemma axis_loop_total:
  "(\<forall>j \<in> set (axis_indices (length (temperatures c)) i). \<exists>b. bar_block_at c j = Inr b) \<Longrightarrow>
   \<exists>bs. axis_loop c i blocks = Inr bs"
proof (induction c i blocks rule: axis_loop.induct)
  case (1 c i blocks)
  show ?case
  proof (cases "i < length (temperatures c)")
    case False
    then show ?thesis
      by (simp add: axis_loop.simps [of c i])
  next
    case True
    then have unfold: "axis_indices (length (temperatures c)) i
        = i # axis_indices (length (temperatures c)) (i + 2)"
      by (subst axis_indices.simps) simp
    with "1.prems" obtain b where b: "bar_block_at c i = Inr b"
      by auto
    from "1.prems" unfold
    have "\<forall>j \<in> set (axis_indices (length (temperatures c)) (i + 2)). \<exists>b. bar_block_at c j = Inr b"
      by simp
    from "1.IH" [OF True b this] True b show ?thesis
      by (simp add: axis_loop.simps [of c i])
  qed
qed

lemma render_Inr_iff:
  "render ICONS c = Inr r \<longleftrightarrow>
     (\<exists>blocks. axis_loop c 1 [] = Inr blocks
        \<and> r = \<lparr>colorStyles = (case colors c of None \<Rightarrow> None | Some cm \<Rightarrow> getColorStyles cm),
                conditionBars = fst (render_conditionBars ICONS c),
                barBlocks = blocks\<rparr>)"
  by (auto simp: render_def Let_def split: sum.splits)

lemma render_barBlocks:
  assumes "render ICONS c = Inr r"
  shows "list_all2 (\<lambda>j b. bar_block_at c j = Inr b)
           (axis_indices (length (temperatures c)) 1) (barBlocks r)"
  using assms axis_loop_Inr [of c 1 "[]" "barBlocks r"]
  by (auto simp: render_Inr_iff)

lemma render_barBlocks_length:
  "render ICONS c = Inr r \<Longrightarrow> length (barBlocks r) = length (temperatures c) div 2"
  using render_barBlocks [of ICONS c r]
  by (auto dest!: list_all2_lengthD simp: axis_indices_from_Suc_0)

lemma render_barBlocks_nth:
  assumes "render ICONS c = Inr r" and "k < length (barBlocks r)"
  shows "bar_block_at c (2 * k + 1) = Inr (barBlocks r ! k)"
proof -
  have k: "k < length (temperatures c) div 2"
    using assms by (simp add: render_barBlocks_length)
  from render_barBlocks [OF assms(1)] assms(2)
  have "bar_block_at c (axis_indices (length (temperatures c)) 1 ! k) = Inr (barBlocks r ! k)"
    by (auto simp: list_all2_conv_all_nth)
  with k show ?thesis
    by (simp add: axis_indices_from_Suc_0)
qed

lemma render_total:
  assumes "\<forall>i. odd i \<and> i < length (temperatures c) \<longrightarrow>
             i < length (wind c) \<and> i < length (precipitation c)"
  shows "\<exists>r. render ICONS c = Inr r"
proof -
  have "\<forall>j \<in> set (axis_indices (length (temperatures c)) 1). \<exists>b. bar_block_at c j = Inr b"
    using assms by (simp add: set_axis_indices_Suc_0 bar_block_at_Inr_iff)
  from axis_loop_total [OF this, of "[]"] show ?thesis
    by (auto simp: render_Inr_iff)
qed

lemma render_fails:
  assumes "odd i" "i < length (temperatures c)"
    and "length (wind c) \<le> i \<or> length (precipitation c) \<le> i"
  shows "render ICONS c = Inl TypeError"
proof (cases "render ICONS c")
  case (Inl e)
  then show ?thesis by (simp add: js_error_TypeError [of e])
next
  case (Inr r)
  from assms have "i \<in> set (axis_indices (length (temperatures c)) 1)"
    by (simp add: set_axis_indices_Suc_0)
  with render_barBlocks [OF Inr] obtain b where "bar_block_at c i = Inr b"
    by (auto simp: list_all2_conv_all_nth in_set_conv_nth)
  with assms show ?thesis
    by (auto simp: bar_block_at_Inr_iff)
qed

text \<open>The loop with its record of visits is the loop, and the record is as follows.\<close>

lemma axis_loop_trace_snd: "snd (axis_loop_trace c i visited blocks) = axis_loop c i blocks"
proof (induction c i visited blocks rule: axis_loop_trace.induct)
  case (1 c i visited blocks)
  show ?case
  proof (cases "i < length (temperatures c)")
    case False
    then show ?thesis
      by (simp add: axis_loop_trace.simps [of c i] axis_loop.simps [of c i])
  next
    case True
    show ?thesis
    proof (cases "bar_block_at c i")
      case (Inl e)
      with True show ?thesis
        by (simp add: axis_loop_trace.simps [of c i] axis_loop.simps [of c i])
    next
      case (Inr b)
      with True "1.IH" [OF True Inr] show ?thesis
        by (simp add: axis_loop_trace.simps [of c i] axis_loop.simps [of c i])
    qed
  qed
qed

lemma axis_loop_trace_fst:
  "\<exists>ws. fst (axis_loop_trace c i visited blocks) = visited @ ws
     \<and> prefix ws (axis_indices (length (temperatures c)) i)
     \<and> (case axis_loop c i blocks of
          Inr bs \<Rightarrow> ws = axis_indices (length (temperatures c)) i
        | Inl e \<Rightarrow> ws \<noteq> [] \<and> bar_block_at c (last ws) = Inl e
                   \<and> (\<forall>j \<in> set (butlast ws). \<exists>b. bar_block_at c j = Inr b))"
proof (induction c i visited blocks rule: axis_loop_trace.induct)
  case (1 c i visited blocks)
  let ?n = "length (temperatures c)"
  show ?case
  proof (cases "i < ?n")
    case False
    then have "axis_indices ?n i = []"
      by (subst axis_indices.simps) simp
    with False show ?thesis
      by (simp add: axis_loop_trace.simps [of c i] axis_loop.simps [of c i])
  next
    case True
    then have odds: "axis_indices ?n i = i # axis_indices ?n (i + 2)"
      by (subst axis_indices.simps) simp
    show ?thesis
    proof (cases "bar_block_at c i")
      case (Inl e)
      with True have "fst (axis_loop_trace c i visited blocks) = visited @ [i]"
        and "axis_loop c i blocks = Inl e"
        by (simp_all add: axis_loop_trace.simps [of c i] axis_loop.simps [of c i])
      with Inl odds show ?thesis
        by (intro exI [of _ "[i]"]) simp
    next
      case (Inr b)
      from "1.IH" [OF True Inr] obtain ws where
        ws: "fst (axis_loop_trace c (i + 2) (visited @ [i]) (blocks @ [b])) = (visited @ [i]) @ ws"
          "prefix ws (axis_indices ?n (i + 2))"
          "case axis_loop c (i + 2) (blocks @ [b]) of
             Inr bs \<Rightarrow> ws = axis_indices ?n (i + 2)
           | Inl e \<Rightarrow> ws \<noteq> [] \<and> bar_block_at c (last ws) = Inl e
                      \<and> (\<forall>j \<in> set (butlast ws). \<exists>b. bar_block_at c j = Inr b)"
        by blast
      from True Inr have same: "axis_loop_trace c i visited blocks
          = axis_loop_trace c (i + 2) (visited @ [i]) (blocks @ [b])"
        "axis_loop c i blocks = axis_loop c (i + 2) (blocks @ [b])"
        by (simp_all add: axis_loop_trace.simps [of c i] axis_loop.simps [of c i])
      show ?thesis
      proof (intro exI [of _ "i # ws"] conjI)
        show "fst (axis_loop_trace c i visited blocks) = visited @ i # ws"
          using ws(1) same(1) by simp
        show "prefix (i # ws) (axis_indices ?n i)"
          using ws(2) odds by simp
        show "case axis_loop c i blocks of
             Inr bs \<Rightarrow> i # ws = axis_indices ?n i
           | Inl e \<Rightarrow> i # ws \<noteq> [] \<and> bar_block_at c (last (i # ws)) = Inl e
                      \<and> (\<forall>j \<in> set (butlast (i # ws)). \<exists>b. bar_block_at c j = Inr b)"
          using ws(3) Inr odds unfolding same(2)
          by (auto split: sum.splits)
      qed
    qed
  qed
qed

lemma bar_block_at_Inl_iff:
  "bar_block_at c i = Inl e \<longleftrightarrow>
     length (temperatures c) \<le> i \<or> length (wind c) \<le> i \<or> length (precipitation c) \<le> i"
  by (cases e) (auto simp: bar_block_at_def js_index_def destructure_def Let_def)

subsection \<open>Claim C2: the indices of the axis loop and the number of blocks\<close>

text \<open>
  Claim C2 says that for temperatures of length \<open>n\<close> the loop makes
  \<open>floor((n - 1) / 2)\<close> blocks. With two entries in each array the loop reaches index 1
  and render returns one block, while \<open>floor((2 - 1) / 2) = 0\<close>.
\<close>

theorem axis_block_count_counterexample:
  "length (temperatures (axis_example [0, 1])) = 2
   \<and> render Map.empty (axis_example [0, 1])
       = Inr \<lparr>colorStyles = None, conditionBars = [],
              barBlocks = [\<lparr>hour_div = Some ''1'', temperature_div = Some 11,
                            wind_div = [Wind_text ''5 m/s'', Br, Wind_text ''NE''],
                            precipitation_div = Some ''1 mm''\<rparr>]\<rparr>
   \<and> int (length [\<lparr>hour_div = Some ''1'', temperature_div = Some (11 :: int),
                     wind_div = [Wind_text ''5 m/s'', Br, Wind_text ''NE''],
                     precipitation_div = Some ''1 mm''\<rparr>])
       \<noteq> (int (length (temperatures (axis_example [0, 1]))) - 1) div 2"
  by (simp add: axis_example_def render_def render_conditionBars_def axis_loop.simps
      bar_block_at_def js_index_def destructure_def wind_parts_def skipLabel_def js_rem_def
      slot_def gust_def rain_def getWindBarb_def decimal_small Let_def)

text \<open>
  Claim C2, amended. For temperatures of length \<open>n\<close>, the indices at which the axis loop
  enters its body are an initial part of the odd indices below \<open>n\<close> in increasing order
  (\<open>2 * k + 1\<close> for \<open>k < n div 2\<close>). When render returns, the loop has visited all of them
  and the blocks of the tree are the blocks of these indices, one for each, so there are
  \<open>floor(n / 2)\<close> of them. When render throws, the last index visited is the first one
  past the end of wind or of precipitation, and no block is returned. Render returns
  whenever wind and precipitation are at least as long as the temperatures. The visits are
  those of \<open>axis_loop_trace\<close>, which is \<open>axis_loop\<close> with the visits recorded.
\<close>

theorem axis_block_count:
  "(let n = length (temperatures c);
        odds = axis_indices n 1;
        visited = fst (axis_loop_trace c 1 [] [])
    in snd (axis_loop_trace c 1 [] []) = axis_loop c 1 []
     \<and> odds = map (\<lambda>k. 2 * k + 1) [0..<n div 2]
     \<and> set odds = {i. odd i \<and> i < n}
     \<and> prefix visited odds
     \<and> (\<forall>r. render ICONS c = Inr r \<longrightarrow>
           visited = odds
         \<and> length (barBlocks r) = n div 2
         \<and> list_all2 (\<lambda>i b. bar_block_at c i = Inr b) odds (barBlocks r))
     \<and> (\<forall>e. render ICONS c = Inl e \<longrightarrow>
           visited \<noteq> []
         \<and> (length (wind c) \<le> last visited \<or> length (precipitation c) \<le> last visited)
         \<and> (\<forall>i \<in> set (butlast visited). i < length (wind c) \<and> i < length (precipitation c)))
     \<and> (n \<le> length (wind c) \<and> n \<le> length (precipitation c) \<longrightarrow>
           (\<exists>r. render ICONS c = Inr r \<and> length (barBlocks r) = n div 2)))"
proof -
  define n where "n = length (temperatures c)"
  define odds where "odds = axis_indices n 1"
  define visited where "visited = fst (axis_loop_trace c 1 [] [])"
  from axis_loop_trace_fst [of c 1 "[]" "[]"] obtain ws where
    ws: "fst (axis_loop_trace c 1 [] []) = [] @ ws"
      "prefix ws (axis_indices (length (temperatures c)) 1)"
      "case axis_loop c 1 [] of
         Inr bs \<Rightarrow> ws = axis_indices (length (temperatures c)) 1
       | Inl e \<Rightarrow> ws \<noteq> [] \<and> bar_block_at c (last ws) = Inl e
                  \<and> (\<forall>j \<in> set (butlast ws). \<exists>b. bar_block_at c j = Inr b)"
    by blast
  from ws(1) have ws_eq: "ws = visited"
    unfolding visited_def by simp
  have pre: "prefix visited odds"
    using ws(2) unfolding ws_eq odds_def n_def .
  have run: "case axis_loop c 1 [] of
        Inr bs \<Rightarrow> visited = odds
      | Inl e \<Rightarrow> visited \<noteq> [] \<and> bar_block_at c (last visited) = Inl e
                 \<and> (\<forall>j \<in> set (butlast visited). \<exists>b. bar_block_at c j = Inr b)"
    using ws(3) unfolding ws_eq odds_def n_def .
  have same: "snd (axis_loop_trace c 1 [] []) = axis_loop c 1 []"
    by (rule axis_loop_trace_snd)
  have odds_eq: "odds = map (\<lambda>k. 2 * k + 1) [0..<n div 2]"
    unfolding odds_def by (rule axis_indices_from_1)
  have odds_set: "set odds = {i. odd i \<and> i < n}"
    unfolding odds_def by (rule set_axis_indices)
  have returned: "visited = odds \<and> length (barBlocks r) = n div 2
      \<and> list_all2 (\<lambda>i b. bar_block_at c i = Inr b) odds (barBlocks r)"
    if "render ICONS c = Inr r" for r
  proof -
    from that have "axis_loop c 1 [] = Inr (barBlocks r)"
      by (auto simp: render_Inr_iff)
    with run have "visited = odds"
      by simp
    with render_barBlocks_length [OF that] render_barBlocks [OF that] show ?thesis
      by (simp add: n_def odds_def)
  qed
  have thrown: "visited \<noteq> []
      \<and> (length (wind c) \<le> last visited \<or> length (precipitation c) \<le> last visited)
      \<and> (\<forall>i \<in> set (butlast visited). i < length (wind c) \<and> i < length (precipitation c))"
    if "render ICONS c = Inl e" for e
  proof -
    from that have "axis_loop c 1 [] = Inl e"
      by (auto simp: render_def Let_def split: sum.splits)
    with run have ne: "visited \<noteq> []" and bad: "bar_block_at c (last visited) = Inl e"
      and good: "\<forall>j \<in> set (butlast visited). \<exists>b. bar_block_at c j = Inr b"
      by simp_all
    from ne have "last visited \<in> set visited"
      by simp
    with pre have "last visited \<in> set odds"
      by (auto dest: set_mono_prefix)
    then have "last visited < length (temperatures c)"
      by (simp add: odds_set n_def)
    with bad have "length (wind c) \<le> last visited \<or> length (precipitation c) \<le> last visited"
      by (simp add: bar_block_at_Inl_iff)
    with ne good show ?thesis
      by (auto simp: bar_block_at_Inr_iff)
  qed
  have total: "\<exists>r. render ICONS c = Inr r \<and> length (barBlocks r) = n div 2"
    if "n \<le> length (wind c) \<and> n \<le> length (precipitation c)"
  proof -
    from that have "\<exists>r. render ICONS c = Inr r"
      unfolding n_def by (intro render_total) auto
    then show ?thesis
      by (auto simp: render_barBlocks_length n_def)
  qed
  show ?thesis
    unfolding Let_def n_def [symmetric] odds_def [symmetric] visited_def [symmetric]
    using same pre odds_eq odds_set returned thrown total
    by (intro conjI allI impI) blast+
qed

theorem axis_block_count_witness:
  "length (temperatures (axis_example [0, 1, 2, 3, 4])) = 5
   \<and> length (wind (axis_example [0, 1, 2, 3, 4])) = 5
   \<and> length (precipitation (axis_example [0, 1, 2, 3, 4])) = 5
   \<and> axis_indices 5 1 = [1, 3]
   \<and> fst (axis_loop_trace (axis_example [0, 1, 2, 3, 4]) 1 [] []) = [1, 3]
   \<and> (\<exists>r. render Map.empty (axis_example [0, 1, 2, 3, 4]) = Inr r \<and> length (barBlocks r) = 2)
   \<and> render Map.empty ((axis_example [0, 1, 2, 3]) \<lparr>wind := []\<rparr>) = Inl TypeError
   \<and> fst (axis_loop_trace ((axis_example [0, 1, 2, 3]) \<lparr>wind := []\<rparr>) 1 [] []) = [1]"
proof -
  let ?c = "axis_example [0, 1, 2, 3, 4]"
  let ?d = "(axis_example [0, 1, 2, 3]) \<lparr>wind := []\<rparr>"
  have len: "length (temperatures ?c) = 5" "length (wind ?c) = 5"
    "length (precipitation ?c) = 5"
    by (simp_all add: axis_example_def)
  have half: "(5 :: nat) div 2 = 2"
    by simp
  have odds: "map (\<lambda>k. 2 * k + 1) [0..<2] = [1, 3 :: nat]"
    by code_simp
  note good = axis_block_count [of ?c Map.empty, unfolded Let_def len half]
  from good have idx: "axis_indices 5 1 = [1, 3]"
    unfolding odds by blast
  from good len have ret: "\<exists>r. render Map.empty ?c = Inr r \<and> length (barBlocks r) = 2"
    by simp
  with good idx have vis: "fst (axis_loop_trace ?c 1 [] []) = [1, 3]"
    by auto
  have thrown: "render Map.empty ?d = Inl TypeError"
    by (rule render_fails [of 1]) (simp_all add: axis_example_def)
  have len_d: "length (temperatures ?d) = 4"
    by (simp add: axis_example_def)
  have four: "map (\<lambda>k. 2 * k + 1) [0..<4 div 2] = [1, 3 :: nat]"
    by code_simp
  note bad = axis_block_count [of ?d Map.empty, unfolded Let_def len_d]
  from bad have pre: "prefix (fst (axis_loop_trace ?d 1 [] [])) [1, 3]"
    unfolding four by metis
  from bad thrown have ne: "fst (axis_loop_trace ?d 1 [] []) \<noteq> []"
    and inside: "\<forall>i \<in> set (butlast (fst (axis_loop_trace ?d 1 [] []))). i < length (wind ?d)"
    by blast+
  have "fst (axis_loop_trace ?d 1 [] []) = [1]"
  proof -
    from pre consider "fst (axis_loop_trace ?d 1 [] []) = []"
      | "fst (axis_loop_trace ?d 1 [] []) = [1]"
      | "fst (axis_loop_trace ?d 1 [] []) = [1, 3]"
      by (auto simp: prefix_Cons)
    then show ?thesis
    proof cases
      case 1
      with ne show ?thesis by simp
    next
      case 2
      then show ?thesis .
    next
      case 3
      with inside show ?thesis by (simp add: axis_example_def)
    qed
  qed
  with len idx vis ret thrown show ?thesis
    by simp
qed

text \<open>The definitions to unfold when render is run on one of the example inputs.\<close>

lemmas axis_eval =
  axis_example_def render_def render_conditionBars_def axis_loop.simps
  bar_block_at_def js_index_def destructure_def wind_parts_def skipLabel_def js_rem_def
  slot_def gust_def rain_def getWindBarb_def decimal_small Let_def

subsection \<open>Claim C8: the array reads of the axis loop\<close>

text \<open>
  Claim C8. When wind and precipitation are at least as long as the temperatures, every
  index the axis loop reaches is within all three arrays, and render returns a tree: the
  branch that throws is not taken. Without that, the reads are not guarded: as soon as
  some index the loop reaches lies past the end of wind or precipitation, the read gives
  \<^verbatim>\<open>undefined\<close> and render ends in a TypeError.
\<close>

theorem axis_reads_in_bounds:
  "(length (temperatures c) \<le> length (wind c)
      \<and> length (temperatures c) \<le> length (precipitation c) \<longrightarrow>
        (\<forall>i \<in> set (axis_indices (length (temperatures c)) 1).
            i < length (temperatures c) \<and> i < length (wind c) \<and> i < length (precipitation c))
      \<and> (\<exists>r. render ICONS c = Inr r))
   \<and> ((\<exists>i \<in> set (axis_indices (length (temperatures c)) 1).
          length (wind c) \<le> i \<or> length (precipitation c) \<le> i) \<longrightarrow>
        render ICONS c = Inl TypeError)"
proof (intro conjI impI)
  assume "length (temperatures c) \<le> length (wind c)
    \<and> length (temperatures c) \<le> length (precipitation c)"
  then show "\<forall>i \<in> set (axis_indices (length (temperatures c)) 1).
      i < length (temperatures c) \<and> i < length (wind c) \<and> i < length (precipitation c)"
    unfolding set_axis_indices by auto
next
  assume "length (temperatures c) \<le> length (wind c)
    \<and> length (temperatures c) \<le> length (precipitation c)"
  then show "\<exists>r. render ICONS c = Inr r"
    by (intro render_total) auto
next
  assume "\<exists>i \<in> set (axis_indices (length (temperatures c)) 1).
    length (wind c) \<le> i \<or> length (precipitation c) \<le> i"
  then obtain i where "odd i" "i < length (temperatures c)"
    "length (wind c) \<le> i \<or> length (precipitation c) \<le> i"
    unfolding set_axis_indices by auto
  then show "render ICONS c = Inl TypeError"
    by (rule render_fails)
qed

theorem axis_reads_in_bounds_witness:
  "length (temperatures (axis_example [0, 1, 2, 3])) \<le> length (wind (axis_example [0, 1, 2, 3]))
   \<and> length (temperatures (axis_example [0, 1, 2, 3]))
       \<le> length (precipitation (axis_example [0, 1, 2, 3]))
   \<and> (\<exists>r. render Map.empty (axis_example [0, 1, 2, 3]) = Inr r)
   \<and> 3 \<in> set (axis_indices (length (temperatures ((axis_example [0, 1, 2, 3])
                    \<lparr>wind := map gust [0, 1, 2]\<rparr>))) 1)
   \<and> length (wind ((axis_example [0, 1, 2, 3]) \<lparr>wind := map gust [0, 1, 2]\<rparr>)) \<le> 3
   \<and> render Map.empty ((axis_example [0, 1, 2, 3]) \<lparr>wind := map gust [0, 1, 2]\<rparr>)
       = Inl TypeError"
proof -
  let ?good = "axis_example [0, 1, 2, 3]"
  let ?bad = "(axis_example [0, 1, 2, 3]) \<lparr>wind := map gust [0, 1, 2]\<rparr>"
  have good: "length (temperatures ?good) \<le> length (wind ?good)"
    "length (temperatures ?good) \<le> length (precipitation ?good)"
    by (simp_all add: axis_example_def)
  have reached: "3 \<in> set (axis_indices (length (temperatures ?bad)) 1)"
    unfolding set_axis_indices by (simp add: axis_example_def)
  have short: "length (wind ?bad) \<le> 3"
    by (simp add: axis_example_def)
  from reached short
  have bad: "\<exists>i \<in> set (axis_indices (length (temperatures ?bad)) 1).
      length (wind ?bad) \<le> i \<or> length (precipitation ?bad) \<le> i"
    by blast
  show ?thesis
    using axis_reads_in_bounds [of ?good Map.empty] axis_reads_in_bounds [of ?bad Map.empty]
      good reached short bad
    by blast
qed

subsection \<open>Claim C3: label spacing\<close>

lemma js_rem_nonneg: "0 \<le> a \<Longrightarrow> 0 < b \<Longrightarrow> js_rem a b = Some (a mod b)"
  by (cases "a = 0") (simp_all add: js_rem_def)

lemma skipLabel_wind_parts: "skipLabel c i \<Longrightarrow> wind_parts c i w = []"
  by (simp add: wind_parts_def)

lemma wind_parts_empty_iff:
  "wind_parts c i w = [] \<longleftrightarrow>
     show_wind c \<notin> {''true'', ''speed'', ''direction'', ''barb''} \<or> skipLabel c i"
  by (auto simp: wind_parts_def)

text \<open>
  Claim C3. For a label spacing of at least 1 and an odd index \<open>i\<close>, the labels of the
  slot are skipped exactly when \<open>(i - 1) mod label_spacing\<close> is not 0, and with a spacing
  of 1 no slot is skipped. What skipping means for the block of index \<open>i\<close>, for any
  spacing: the hour is absent exactly when hide_hours is set or the slot is skipped, the
  temperature exactly when hide_temperatures is set or the slot is skipped, the
  precipitation amount exactly when show_precipitation_amounts is off or the slot is
  skipped, and the wind cell is empty exactly when show_wind is none of its four modes or
  the slot is skipped. So a skipped slot shows nothing whatever the flags are, and a slot
  that is not skipped shows the hour, the temperature and the amount of its index as the
  flags say. The block exists when the index is within the three arrays, and the block at
  position \<open>k\<close> of the rendered axis is the block of index \<open>2 * k + 1\<close>.
\<close>

theorem label_spacing_suppression:
  "(1 \<le> label_spacing c \<and> odd i \<longrightarrow>
      (skipLabel c i \<longleftrightarrow> (int i - 1) mod label_spacing c \<noteq> 0)
    \<and> (label_spacing c = 1 \<longrightarrow> \<not> skipLabel c i))
   \<and> (\<forall>b. skipLabel c i \<and> bar_block_at c i = Inr b \<longrightarrow>
          hour_div b = None \<and> temperature_div b = None \<and> wind_div b = []
        \<and> precipitation_div b = None)
   \<and> (\<forall>r k. render ICONS c = Inr r \<and> k < length (barBlocks r) \<and> i = 2 * k + 1
            \<and> skipLabel c i \<longrightarrow>
          hour_div (barBlocks r ! k) = None \<and> temperature_div (barBlocks r ! k) = None
        \<and> wind_div (barBlocks r ! k) = [] \<and> precipitation_div (barBlocks r ! k) = None)
   \<and> (\<forall>b. bar_block_at c i = Inr b \<longrightarrow>
          (hour_div b = None \<longleftrightarrow> hide_hours c \<or> skipLabel c i)
        \<and> (temperature_div b = None \<longleftrightarrow> hide_temperatures c \<or> skipLabel c i)
        \<and> (precipitation_div b = None \<longleftrightarrow> \<not> show_precipitation_amounts c \<or> skipLabel c i)
        \<and> (wind_div b = [] \<longleftrightarrow>
             show_wind c \<notin> {''true'', ''speed'', ''direction'', ''barb''} \<or> skipLabel c i)
        \<and> (\<not> skipLabel c i \<longrightarrow>
             hour_div b = (if hide_hours c then None else Some (hour (temperatures c ! i)))
           \<and> temperature_div b
               = (if hide_temperatures c then None
                  else Some (temperature (temperatures c ! i)))
           \<and> precipitation_div b
               = (if show_precipitation_amounts c
                  then Some (precipitationAmount (precipitation c ! i)) else None)
           \<and> wind_div b = wind_parts c i (wind c ! i)))
   \<and> (i < length (temperatures c) \<and> i < length (wind c) \<and> i < length (precipitation c) \<longrightarrow>
        (\<exists>b. bar_block_at c i = Inr b))
   \<and> (\<forall>r k. render ICONS c = Inr r \<and> k < length (barBlocks r) \<and> i = 2 * k + 1 \<longrightarrow>
          bar_block_at c i = Inr (barBlocks r ! k))"
proof -
  have iff: "skipLabel c i \<longleftrightarrow> (int i - 1) mod label_spacing c \<noteq> 0"
    if spacing: "1 \<le> label_spacing c" and sampled: "odd i"
  proof -
    from sampled have "0 \<le> int i - 1"
      by (cases i) auto
    with spacing
    have "js_rem (int i - 1) (label_spacing c) = Some ((int i - 1) mod label_spacing c)"
      by (intro js_rem_nonneg) auto
    then show ?thesis
      by (simp add: skipLabel_def)
  qed
  have one: "\<not> skipLabel c i" if "1 \<le> label_spacing c" "odd i" "label_spacing c = 1"
    using that by (simp add: iff)
  have first: "(skipLabel c i \<longleftrightarrow> (int i - 1) mod label_spacing c \<noteq> 0)
      \<and> (label_spacing c = 1 \<longrightarrow> \<not> skipLabel c i)"
    if "1 \<le> label_spacing c \<and> odd i"
    using that iff one by simp
  have block: "hour_div b = None \<and> temperature_div b = None \<and> wind_div b = []
      \<and> precipitation_div b = None"
    if "skipLabel c i" "bar_block_at c i = Inr b" for b
    using that by (simp add: bar_block_at_Inr_iff skipLabel_wind_parts)
  have second: "hour_div b = None \<and> temperature_div b = None \<and> wind_div b = []
      \<and> precipitation_div b = None"
    if "skipLabel c i \<and> bar_block_at c i = Inr b" for b
  proof -
    from that have "skipLabel c i" "bar_block_at c i = Inr b"
      by blast+
    then show ?thesis
      by (rule block)
  qed
  have nth: "bar_block_at c i = Inr (barBlocks r ! k)"
    if "render ICONS c = Inr r \<and> k < length (barBlocks r) \<and> i = 2 * k + 1" for r k
  proof -
    from that have "render ICONS c = Inr r" "k < length (barBlocks r)" "i = 2 * k + 1"
      by blast+
    then show ?thesis
      using render_barBlocks_nth [of ICONS c r k] by simp
  qed
  have third: "hour_div (barBlocks r ! k) = None \<and> temperature_div (barBlocks r ! k) = None
      \<and> wind_div (barBlocks r ! k) = [] \<and> precipitation_div (barBlocks r ! k) = None"
    if "render ICONS c = Inr r \<and> k < length (barBlocks r) \<and> i = 2 * k + 1
      \<and> skipLabel c i" for r k
  proof -
    from that have "skipLabel c i" and "bar_block_at c i = Inr (barBlocks r ! k)"
      using nth [of r k] by blast+
    then show ?thesis
      by (rule block)
  qed
  have fourth: "(hour_div b = None \<longleftrightarrow> hide_hours c \<or> skipLabel c i)
      \<and> (temperature_div b = None \<longleftrightarrow> hide_temperatures c \<or> skipLabel c i)
      \<and> (precipitation_div b = None \<longleftrightarrow> \<not> show_precipitation_amounts c \<or> skipLabel c i)
      \<and> (wind_div b = [] \<longleftrightarrow>
           show_wind c \<notin> {''true'', ''speed'', ''direction'', ''barb''} \<or> skipLabel c i)
      \<and> (\<not> skipLabel c i \<longrightarrow>
           hour_div b = (if hide_hours c then None else Some (hour (temperatures c ! i)))
         \<and> temperature_div b
             = (if hide_temperatures c then None
                else Some (temperature (temperatures c ! i)))
         \<and> precipitation_div b
             = (if show_precipitation_amounts c
                then Some (precipitationAmount (precipitation c ! i)) else None)
         \<and> wind_div b = wind_parts c i (wind c ! i))"
    if "bar_block_at c i = Inr b" for b
  proof -
    from that have b: "hour_div b = (if hide_hours c \<or> skipLabel c i then None
          else Some (hour (temperatures c ! i)))"
      "temperature_div b = (if hide_temperatures c \<or> skipLabel c i then None
          else Some (temperature (temperatures c ! i)))"
      "wind_div b = wind_parts c i (wind c ! i)"
      "precipitation_div b = (if show_precipitation_amounts c \<and> \<not> skipLabel c i
          then Some (precipitationAmount (precipitation c ! i)) else None)"
      by (simp_all add: bar_block_at_Inr_iff)
    have wind: "wind_div b = [] \<longleftrightarrow>
        show_wind c \<notin> {''true'', ''speed'', ''direction'', ''barb''} \<or> skipLabel c i"
      unfolding b(3) by (rule wind_parts_empty_iff)
    from b(1,2,4) have "(hour_div b = None \<longleftrightarrow> hide_hours c \<or> skipLabel c i)"
      "(temperature_div b = None \<longleftrightarrow> hide_temperatures c \<or> skipLabel c i)"
      "(precipitation_div b = None \<longleftrightarrow> \<not> show_precipitation_amounts c \<or> skipLabel c i)"
      by simp_all
    moreover from b have "\<not> skipLabel c i \<longrightarrow>
           hour_div b = (if hide_hours c then None else Some (hour (temperatures c ! i)))
         \<and> temperature_div b
             = (if hide_temperatures c then None
                else Some (temperature (temperatures c ! i)))
         \<and> precipitation_div b
             = (if show_precipitation_amounts c
                then Some (precipitationAmount (precipitation c ! i)) else None)
         \<and> wind_div b = wind_parts c i (wind c ! i)"
      by simp
    ultimately show ?thesis
      using wind by blast
  qed
  have fifth: "\<exists>b. bar_block_at c i = Inr b"
    if "i < length (temperatures c) \<and> i < length (wind c) \<and> i < length (precipitation c)"
    using that by (simp add: bar_block_at_Inr_iff)
  show ?thesis
    by (rule conjI, rule impI, erule first,
        rule conjI, (rule allI impI)+, erule second,
        rule conjI, (rule allI impI)+, erule third,
        rule conjI, (rule allI impI)+, erule fourth,
        rule conjI, rule impI, erule fifth,
        (rule allI impI)+, erule nth)
qed

theorem label_spacing_suppression_witness:
  "1 \<le> label_spacing spaced_example \<and> odd (3 :: nat) \<and> odd (1 :: nat)
   \<and> skipLabel spaced_example 3
   \<and> bar_block_at spaced_example 3
       = Inr \<lparr>hour_div = None, temperature_div = None, wind_div = [], precipitation_div = None\<rparr>
   \<and> \<not> skipLabel spaced_example 1
   \<and> bar_block_at spaced_example 1
       = Inr \<lparr>hour_div = Some ''1'', temperature_div = Some 11,
              wind_div = [Wind_text ''5 m/s'', Br, Wind_text ''NE''],
              precipitation_div = Some ''1 mm''\<rparr>
   \<and> \<not> skipLabel (spaced_example \<lparr>label_spacing := 1\<rparr>) 3"
proof -
  have spacing: "1 \<le> label_spacing spaced_example"
    "1 \<le> label_spacing (spaced_example \<lparr>label_spacing := 1\<rparr>)"
    by (simp_all add: spaced_example_def axis_example_def)
  have sampled: "odd (3 :: nat)" "odd (1 :: nat)"
    by simp_all
  have inside: "3 < length (temperatures spaced_example) \<and> 3 < length (wind spaced_example)
      \<and> 3 < length (precipitation spaced_example)"
    "1 < length (temperatures spaced_example) \<and> 1 < length (wind spaced_example)
      \<and> 1 < length (precipitation spaced_example)"
    by (simp_all add: spaced_example_def axis_example_def)
  note at_3 = label_spacing_suppression [of spaced_example 3 Map.empty]
  note at_1 = label_spacing_suppression [of spaced_example 1 Map.empty]
  note tight = label_spacing_suppression [of "spaced_example \<lparr>label_spacing := 1\<rparr>" 3 Map.empty]
  have skip3: "skipLabel spaced_example 3"
    using at_3 [THEN conjunct1] spacing(1) sampled(1)
    by (simp add: spaced_example_def axis_example_def)
  have show1: "\<not> skipLabel spaced_example 1"
    using at_1 [THEN conjunct1] spacing(1) sampled(2)
    by (simp add: spaced_example_def axis_example_def)
  have one: "\<not> skipLabel (spaced_example \<lparr>label_spacing := 1\<rparr>) 3"
    using tight [THEN conjunct1] spacing(2) sampled(1)
    by simp
  from at_3 inside(1) obtain b where b: "bar_block_at spaced_example 3 = Inr b"
    by blast
  with skip3 at_3 [THEN conjunct2, THEN conjunct1]
  have "hour_div b = None \<and> temperature_div b = None \<and> wind_div b = []
      \<and> precipitation_div b = None"
    by blast
  then have b_eq: "b = \<lparr>hour_div = None, temperature_div = None, wind_div = [],
      precipitation_div = None\<rparr>"
    by (cases b) simp
  from at_1 inside(2) obtain d where d: "bar_block_at spaced_example 1 = Inr d"
    by blast
  with show1 at_1 have "hour_div d
        = (if hide_hours spaced_example then None
           else Some (hour (temperatures spaced_example ! 1)))
      \<and> temperature_div d
        = (if hide_temperatures spaced_example then None
           else Some (temperature (temperatures spaced_example ! 1)))
      \<and> precipitation_div d
        = (if show_precipitation_amounts spaced_example
           then Some (precipitationAmount (precipitation spaced_example ! 1)) else None)
      \<and> wind_div d = wind_parts spaced_example 1 (wind spaced_example ! 1)"
    by blast
  with show1 have "hour_div d = Some ''1'' \<and> temperature_div d = Some 11
      \<and> precipitation_div d = Some ''1 mm''
      \<and> wind_div d = [Wind_text ''5 m/s'', Br, Wind_text ''NE'']"
    by (simp add: spaced_example_def axis_example_def slot_def gust_def rain_def
        wind_parts_def decimal_small)
  then have d_eq: "d = \<lparr>hour_div = Some ''1'', temperature_div = Some 11,
      wind_div = [Wind_text ''5 m/s'', Br, Wind_text ''NE''],
      precipitation_div = Some ''1 mm''\<rparr>"
    by (cases d) simp
  from b d b_eq d_eq skip3 show1 one spacing sampled show ?thesis
    by simp
qed

subsection \<open>Claim C5: the wind cell\<close>

text \<open>
  Claim C5. In a slot of the rendered axis whose labels are not skipped, the wind cell
  holds: for show_wind \<^verbatim>\<open>true\<close> the speed text, a line break and the direction text;
  for \<^verbatim>\<open>speed\<close> the speed text alone; for \<^verbatim>\<open>direction\<close> the direction text alone;
  for \<^verbatim>\<open>barb\<close> one glyph whose title is the speed text, a space and the direction
  text, and whose rotation is the raw wind direction; for any other value nothing.
\<close>

theorem show_wind_modes:
  assumes rendered: "render ICONS c = Inr r" and slot: "k < length (barBlocks r)"
    and shown: "\<not> skipLabel c (2 * k + 1)"
  shows "2 * k + 1 < length (wind c)
       \<and> (let w = wind c ! (2 * k + 1); cell = wind_div (barBlocks r ! k) in
            (show_wind c = ''true'' \<longrightarrow>
               cell = [Wind_text (windSpeed w), Br, Wind_text (windDirection w)])
          \<and> (show_wind c = ''speed'' \<longrightarrow> cell = [Wind_text (windSpeed w)])
          \<and> (show_wind c = ''direction'' \<longrightarrow> cell = [Wind_text (windDirection w)])
          \<and> (show_wind c = ''barb'' \<longrightarrow>
               cell = [Barb_span (windSpeed w @ '' '' @ windDirection w)
                         (getWindBarb (windSpeedRawMS w) (windDirectionRaw w))]
             \<and> rotate_deg (getWindBarb (windSpeedRawMS w) (windDirectionRaw w))
                 = windDirectionRaw w)
          \<and> (show_wind c \<notin> {''true'', ''speed'', ''direction'', ''barb''} \<longrightarrow> cell = []))"
proof -
  from render_barBlocks_nth [OF rendered slot]
  have inside: "2 * k + 1 < length (wind c)"
    and cell: "wind_div (barBlocks r ! k) = wind_parts c (2 * k + 1) (wind c ! (2 * k + 1))"
    by (simp_all add: bar_block_at_Inr_iff)
  have both: "wind_parts c i w = [Wind_text (windSpeed w), Br, Wind_text (windDirection w)]"
    if "show_wind c = ''true''" "\<not> skipLabel c i" for i w
    using that by (simp add: wind_parts_def)
  have speed: "wind_parts c i w = [Wind_text (windSpeed w)]"
    if "show_wind c = ''speed''" "\<not> skipLabel c i" for i w
    using that by (simp add: wind_parts_def)
  have direction: "wind_parts c i w = [Wind_text (windDirection w)]"
    if "show_wind c = ''direction''" "\<not> skipLabel c i" for i w
    using that by (simp add: wind_parts_def)
  have barb: "wind_parts c i w = [Barb_span (windSpeed w @ '' '' @ windDirection w)
        (getWindBarb (windSpeedRawMS w) (windDirectionRaw w))]"
    if "show_wind c = ''barb''" "\<not> skipLabel c i" for i w
    using that by (simp add: wind_parts_def)
  have angle: "rotate_deg (getWindBarb s d) = d" for s d :: 'a
    by (simp add: getWindBarb_def)
  have other: "wind_parts c i w = []"
    if "show_wind c \<notin> {''true'', ''speed'', ''direction'', ''barb''}" for i w
    using that by (simp add: wind_parts_def)
  show ?thesis
    unfolding Let_def cell
    using inside both [OF _ shown] speed [OF _ shown] direction [OF _ shown] barb [OF _ shown]
      angle other
    by blast
qed

lemma render_barb_example:
  "render Map.empty barb_example
     = Inr \<lparr>colorStyles = None, conditionBars = [],
            barBlocks = [\<lparr>hour_div = Some ''1'', temperature_div = Some 11,
                          wind_div = [Barb_span ''5 m/s NE'' \<lparr>rotate_deg = 45, barb_speed = 5\<rparr>],
                          precipitation_div = Some ''1 mm''\<rparr>]\<rparr>"
  by (simp add: barb_example_def axis_eval)

theorem show_wind_modes_witness:
  "\<not> skipLabel barb_example (2 * 0 + 1)
   \<and> show_wind barb_example = ''barb''
   \<and> windDirectionRaw (wind barb_example ! (2 * 0 + 1)) = 45
   \<and> render Map.empty barb_example
       = Inr \<lparr>colorStyles = None, conditionBars = [],
              barBlocks = [\<lparr>hour_div = Some ''1'', temperature_div = Some 11,
                            wind_div = [Barb_span ''5 m/s NE'' \<lparr>rotate_deg = 45, barb_speed = 5\<rparr>],
                            precipitation_div = Some ''1 mm''\<rparr>]\<rparr>"
proof -
  have shown: "\<not> skipLabel barb_example (2 * 0 + 1)"
    by (simp add: barb_example_def axis_example_def skipLabel_def js_rem_def)
  have mode: "show_wind barb_example = ''barb''"
    by (simp add: barb_example_def axis_example_def)
  have raw: "windDirectionRaw (wind barb_example ! (2 * 0 + 1)) = 45"
    by (simp add: barb_example_def axis_example_def gust_def)
  show ?thesis
    using show_wind_modes [OF render_barb_example _ shown] shown mode raw render_barb_example
    by (simp add: Let_def)
qed

subsection \<open>The segments of the condition bar\<close>

lemma render_conditionBars_segment:
  "i < length (conditions c) \<Longrightarrow>
   seg_class (fst (render_conditionBars ICONS c) ! i) = fst (conditions c ! i)
   \<and> data_tippy_content (fst (render_conditionBars ICONS c) ! i)
       = js_get (labels c) (fst (conditions c ! i))
   \<and> seg_child (fst (render_conditionBars ICONS c) ! i)
       = (if icons c then Condition_icon (resolve_icon ICONS (fst (conditions c ! i)))
          else Condition_label (js_get (labels c) (fst (conditions c ! i))))"
  unfolding render_conditionBars_def by (rule condition_loop_segment)

lemma render_conditionBars_length:
  "length (fst (render_conditionBars ICONS c)) = length (conditions c)"
  by (simp add: render_conditionBars_def condition_loop_length)

lemma render_conditionBars:
  "render ICONS c = Inr r \<Longrightarrow> conditionBars r = fst (render_conditionBars ICONS c)"
  by (auto simp: render_Inr_iff)

lemma axis_loop_no_temperatures: "temperatures c = [] \<Longrightarrow> axis_loop c i blocks = Inr blocks"
  by (simp add: axis_loop.simps)

text \<open>Reading a key: an own value is a string, an inherited member never is.\<close>

lemma Object_prototype_no_string: "Object_prototype key \<noteq> Some (JS_string s)"
  by (simp add: Object_prototype_def)

lemma js_get_string_iff: "js_get obj key = JS_string s \<longleftrightarrow> obj key = Some s"
  using Object_prototype_no_string [of key s]
  by (auto simp: js_get_def split: option.splits)

lemma js_get_absent:
  "obj key = None \<Longrightarrow>
   js_get obj key = (case Object_prototype key of Some m \<Rightarrow> m | None \<Rightarrow> JS_undefined)"
  by (simp add: js_get_def)

lemma js_to_string_no_weather:
  "(\<forall>s. v \<noteq> JS_string s) \<Longrightarrow> \<not> prefix ''weather-'' (js_to_string v)"
  by (cases v) (simp_all add: js_to_string_def)

text \<open>The definitions to unfold when render is run on one of the example bars.\<close>

lemmas bar_eval =
  bar_example_def render_def axis_loop_no_temperatures render_conditionBars_def
  condition_loop_Cons condition_bar_def resolve_icon_def js_to_string_def js_get_def
  Object_prototype_def js_String_small js_add_small Let_def

subsection \<open>Claim C6: the icon name\<close>

text \<open>
  Claim C6. When the icon table returns the condition key itself, the icon name is
  \<^verbatim>\<open>mdi:weather-\<close> followed by that value; in every other case it is \<^verbatim>\<open>mdi:\<close>
  followed by what the lookup returned (as JavaScript writes it in a string). The lookup
  returns the key itself exactly when the table has the key with itself as value. With
  icons switched on, this name is the icon of the segment that render emits for the key.
\<close>

theorem icon_resolution:
  "(ICONS key = Some key \<longrightarrow> resolve_icon ICONS key = ''mdi:weather-'' @ key)
   \<and> (ICONS key \<noteq> Some key \<longrightarrow> resolve_icon ICONS key = ''mdi:'' @ js_to_string (js_get ICONS key))
   \<and> (\<forall>v. ICONS key = Some v \<and> v \<noteq> key \<longrightarrow> resolve_icon ICONS key = ''mdi:'' @ v)
   \<and> (js_get ICONS key = JS_string key \<longleftrightarrow> ICONS key = Some key)
   \<and> (\<forall>r i. render ICONS c = Inr r \<and> icons c \<and> i < length (conditions c)
            \<and> fst (conditions c ! i) = key \<longrightarrow>
          seg_child (conditionBars r ! i) = Condition_icon (resolve_icon ICONS key))"
proof -
  have test: "js_get ICONS key = JS_string key \<longleftrightarrow> ICONS key = Some key"
    by (rule js_get_string_iff)
  have same: "resolve_icon ICONS key = ''mdi:weather-'' @ key" if "ICONS key = Some key"
    using that by (simp add: resolve_icon_def js_get_def js_to_string_def)
  have other: "resolve_icon ICONS key = ''mdi:'' @ js_to_string (js_get ICONS key)"
    if "ICONS key \<noteq> Some key"
    using that by (simp add: resolve_icon_def test)
  have looked_up: "resolve_icon ICONS key = ''mdi:'' @ v" if "ICONS key = Some v" "v \<noteq> key" for v
    using that by (simp add: resolve_icon_def js_get_def js_to_string_def)
  have emitted: "seg_child (conditionBars r ! i) = Condition_icon (resolve_icon ICONS key)"
    if "render ICONS c = Inr r" "icons c" "i < length (conditions c)"
      "fst (conditions c ! i) = key" for r i
    using that render_conditionBars_segment [of i c ICONS]
    by (simp add: render_conditionBars)
  from test same other looked_up emitted show ?thesis
    by blast
qed

theorem icon_resolution_witness:
  "icons_example ''sunny'' = Some ''sunny''
   \<and> resolve_icon icons_example ''sunny'' = ''mdi:weather-sunny''
   \<and> icons_example ''clear-night'' = Some ''night''
   \<and> resolve_icon icons_example ''clear-night'' = ''mdi:night''
   \<and> render icons_example icon_bar_example
       = Inr \<lparr>colorStyles = None,
              conditionBars =
                [\<lparr>seg_class = ''sunny'', gridColumnStart = Text ''1'', gridColumnEnd = Text ''3'',
                   data_tippy_content = JS_string ''Sunny'',
                   seg_child = Condition_icon ''mdi:weather-sunny''\<rparr>,
                 \<lparr>seg_class = ''hazy'', gridColumnStart = Text ''3'', gridColumnEnd = Text ''4'',
                   data_tippy_content = JS_undefined,
                   seg_child = Condition_icon ''mdi:undefined''\<rparr>],
              barBlocks = []\<rparr>"
proof -
  have table: "icons_example ''sunny'' = Some ''sunny''"
    "icons_example ''clear-night'' = Some ''night''" "''night'' \<noteq> ''clear-night''"
    by (simp_all add: icons_example_def)
  have tree: "render icons_example icon_bar_example
       = Inr \<lparr>colorStyles = None,
              conditionBars =
                [\<lparr>seg_class = ''sunny'', gridColumnStart = Text ''1'', gridColumnEnd = Text ''3'',
                   data_tippy_content = JS_string ''Sunny'',
                   seg_child = Condition_icon ''mdi:weather-sunny''\<rparr>,
                 \<lparr>seg_class = ''hazy'', gridColumnStart = Text ''3'', gridColumnEnd = Text ''4'',
                   data_tippy_content = JS_undefined,
                   seg_child = Condition_icon ''mdi:undefined''\<rparr>],
              barBlocks = []\<rparr>"
    by (simp add: icon_bar_example_def icons_example_def bar_eval)
  note sunny = icon_resolution [of icons_example "''sunny''" icon_bar_example]
  note night = icon_resolution [of icons_example "''clear-night''" icon_bar_example]
  from sunny table(1) have "resolve_icon icons_example ''sunny'' = ''mdi:weather-sunny''"
    by simp
  moreover from night [THEN conjunct2, THEN conjunct2, THEN conjunct1] table(2,3)
  have "resolve_icon icons_example ''clear-night'' = ''mdi:night''"
    by simp
  ultimately show ?thesis
    using table tree by simp
qed

subsection \<open>Claim C10: a key that the icon table does not have\<close>

text \<open>
  Claim C10 says that for every key absent from the icon table the lookup yields no value
  and the icon name is \<^verbatim>\<open>mdi:undefined\<close>. The table is an object, and the key
  \<^verbatim>\<open>toString\<close>, which the example table does not have, is found on
  \<^verbatim>\<open>Object.prototype\<close>: the lookup yields that function and the icon name is
  \<^verbatim>\<open>mdi:\<close> followed by the text of the function.
\<close>

theorem unknown_icon_key_counterexample:
  "icons_example ''toString'' = None
   \<and> js_get icons_example ''toString'' = JS_function ''toString''
   \<and> resolve_icon icons_example ''toString'' = ''mdi:function toString() { [native code] }''
   \<and> resolve_icon icons_example ''toString'' \<noteq> ''mdi:undefined''"
  by (simp add: icons_example_def resolve_icon_def js_get_def Object_prototype_def
      js_to_string_def)

text \<open>
  Claim C10, amended. For a key absent from the icon table the comparison with the key
  fails and the icon name is \<^verbatim>\<open>mdi:\<close> followed by the text of what the lookup yields;
  it never begins with \<^verbatim>\<open>mdi:weather-\<close>. When the key is not the name of a member of
  \<^verbatim>\<open>Object.prototype\<close> either, the lookup yields no value and the icon name is
  \<^verbatim>\<open>mdi:undefined\<close>; when it is, the lookup yields that member. With icons switched on,
  render emits this name for every segment of such a key.
\<close>

theorem unknown_icon_key:
  assumes absent: "ICONS key = None"
  shows "js_get ICONS key \<noteq> JS_string key
       \<and> resolve_icon ICONS key = ''mdi:'' @ js_to_string (js_get ICONS key)
       \<and> \<not> prefix ''mdi:weather-'' (resolve_icon ICONS key)
       \<and> (Object_prototype key = None \<longrightarrow>
            js_get ICONS key = JS_undefined \<and> resolve_icon ICONS key = ''mdi:undefined'')
       \<and> (\<forall>m. Object_prototype key = Some m \<longrightarrow>
            js_get ICONS key = m \<and> resolve_icon ICONS key = ''mdi:'' @ js_to_string m)
       \<and> (\<forall>r i. render ICONS c = Inr r \<and> icons c \<and> i < length (conditions c)
                \<and> fst (conditions c ! i) = key \<longrightarrow>
              seg_child (conditionBars r ! i)
                = Condition_icon (''mdi:'' @ js_to_string (js_get ICONS key)))"
proof -
  have no_string: "js_get ICONS key \<noteq> JS_string s" for s
    using absent by (simp add: js_get_string_iff)
  have name: "resolve_icon ICONS key = ''mdi:'' @ js_to_string (js_get ICONS key)"
    using no_string [of key] by (simp add: resolve_icon_def)
  have "\<not> prefix ''weather-'' (js_to_string (js_get ICONS key))"
    using no_string by (intro js_to_string_no_weather) simp
  then have plain: "\<not> prefix ''mdi:weather-'' (resolve_icon ICONS key)"
    unfolding name by simp
  have no_member: "js_get ICONS key = JS_undefined \<and> resolve_icon ICONS key = ''mdi:undefined''"
    if "Object_prototype key = None"
    using that absent name by (simp add: js_get_absent js_to_string_def)
  have inherited: "js_get ICONS key = m \<and> resolve_icon ICONS key = ''mdi:'' @ js_to_string m"
    if "Object_prototype key = Some m" for m
    using that absent name by (simp add: js_get_absent)
  have emitted: "seg_child (conditionBars r ! i)
      = Condition_icon (''mdi:'' @ js_to_string (js_get ICONS key))"
    if "render ICONS c = Inr r \<and> icons c \<and> i < length (conditions c)
      \<and> fst (conditions c ! i) = key" for r i
  proof -
    from that have "render ICONS c = Inr r" "icons c" "i < length (conditions c)"
      "fst (conditions c ! i) = key"
      by blast+
    then show ?thesis
      using render_conditionBars_segment [of i c ICONS] name
      by (simp add: render_conditionBars)
  qed
  have test: "js_get ICONS key \<noteq> JS_string key"
    by (rule no_string)
  have own: "Object_prototype key = None \<longrightarrow>
      js_get ICONS key = JS_undefined \<and> resolve_icon ICONS key = ''mdi:undefined''"
    by (rule impI) (rule no_member)
  have proto: "\<forall>m. Object_prototype key = Some m \<longrightarrow>
      js_get ICONS key = m \<and> resolve_icon ICONS key = ''mdi:'' @ js_to_string m"
    by (intro allI impI) (rule inherited)
  have tree: "\<forall>r i. render ICONS c = Inr r \<and> icons c \<and> i < length (conditions c)
        \<and> fst (conditions c ! i) = key \<longrightarrow>
      seg_child (conditionBars r ! i)
        = Condition_icon (''mdi:'' @ js_to_string (js_get ICONS key))"
    by (intro allI impI) (rule emitted)
  show ?thesis
    by (rule conjI [OF test conjI [OF name conjI [OF plain conjI [OF own conjI [OF proto tree]]]]])
qed

theorem unknown_icon_key_witness:
  "icons_example ''hazy'' = None
   \<and> Object_prototype ''hazy'' = None
   \<and> resolve_icon icons_example ''hazy'' = ''mdi:undefined''
   \<and> \<not> prefix ''mdi:weather-'' (resolve_icon icons_example ''hazy'')
   \<and> icons_example ''toString'' = None
   \<and> \<not> prefix ''mdi:weather-'' (resolve_icon icons_example ''toString'')"
proof -
  have absent: "icons_example ''hazy'' = None" "icons_example ''toString'' = None"
    by (simp_all add: icons_example_def)
  have own: "Object_prototype ''hazy'' = None"
    by (simp add: Object_prototype_def)
  from unknown_icon_key [of icons_example "''hazy''" icon_bar_example]
    unknown_icon_key [of icons_example "''toString''" icon_bar_example] absent own
  show ?thesis
    by blast
qed

subsection \<open>Claim C4: a key that the labels do not have\<close>

text \<open>
  Claim C4 says that for a key absent from the labels the segment shows the raw key as
  its label and tooltip. The label is read with \<^verbatim>\<open>this.labels[cond[0]]\<close> and nothing
  replaces an absent result: for the condition hazy, which the labels of the example do
  not have, the tooltip and the label span hold \<^verbatim>\<open>undefined\<close>, not the text hazy.
\<close>

theorem unknown_label_counterexample:
  "labels hazy_example ''hazy'' = None
   \<and> render icons_example hazy_example
       = Inr \<lparr>colorStyles = None,
              conditionBars =
                [\<lparr>seg_class = ''hazy'', gridColumnStart = Text ''1'', gridColumnEnd = Text ''2'',
                   data_tippy_content = JS_undefined, seg_child = Condition_label JS_undefined\<rparr>],
              barBlocks = []\<rparr>
   \<and> data_tippy_content (hd (fst (render_conditionBars icons_example hazy_example)))
       \<noteq> JS_string ''hazy''
   \<and> seg_child (hd (fst (render_conditionBars icons_example hazy_example)))
       \<noteq> Condition_label (JS_string ''hazy'')"
  by (simp add: hazy_example_def bar_eval)

text \<open>
  Claim C4, amended. For a key absent from the labels, the segment has the raw key as its
  class, and its tooltip text and (when icons are off) its label span hold what reading
  the key from the labels object yields, which is never a string and so never the raw
  key: no value, when the key is not the name of a member of \<^verbatim>\<open>Object.prototype\<close>
  either, and that inherited member when it is. No error arises from it: the loop over
  the conditions emits one segment for each span, these are the segments of the tree
  whenever render returns, and render returns under the length condition of the axis
  arrays alone.
\<close>

theorem unknown_label_key:
  assumes absent: "labels c key = None"
  shows "length (fst (render_conditionBars ICONS c)) = length (conditions c)
       \<and> (\<forall>i. i < length (conditions c) \<and> fst (conditions c ! i) = key \<longrightarrow>
              seg_class (fst (render_conditionBars ICONS c) ! i) = key
            \<and> data_tippy_content (fst (render_conditionBars ICONS c) ! i)
                = js_get (labels c) key
            \<and> (\<forall>s. data_tippy_content (fst (render_conditionBars ICONS c) ! i) \<noteq> JS_string s)
            \<and> (\<not> icons c \<longrightarrow>
                 seg_child (fst (render_conditionBars ICONS c) ! i)
                   = Condition_label (js_get (labels c) key))
            \<and> (Object_prototype key = None \<longrightarrow>
                 data_tippy_content (fst (render_conditionBars ICONS c) ! i) = JS_undefined
               \<and> (\<not> icons c \<longrightarrow>
                    seg_child (fst (render_conditionBars ICONS c) ! i)
                      = Condition_label JS_undefined))
            \<and> (\<forall>m. Object_prototype key = Some m \<longrightarrow>
                 data_tippy_content (fst (render_conditionBars ICONS c) ! i) = m))
       \<and> (\<forall>r. render ICONS c = Inr r \<longrightarrow> conditionBars r = fst (render_conditionBars ICONS c))
       \<and> (length (temperatures c) \<le> length (wind c)
            \<and> length (temperatures c) \<le> length (precipitation c) \<longrightarrow>
              (\<exists>r. render ICONS c = Inr r))"
proof -
  have no_string: "js_get (labels c) key \<noteq> JS_string s" for s
    using absent by (simp add: js_get_string_iff)
  have segment: "seg_class (fst (render_conditionBars ICONS c) ! i) = key
      \<and> data_tippy_content (fst (render_conditionBars ICONS c) ! i) = js_get (labels c) key
      \<and> (\<forall>s. data_tippy_content (fst (render_conditionBars ICONS c) ! i) \<noteq> JS_string s)
      \<and> (\<not> icons c \<longrightarrow>
           seg_child (fst (render_conditionBars ICONS c) ! i)
             = Condition_label (js_get (labels c) key))
      \<and> (Object_prototype key = None \<longrightarrow>
           data_tippy_content (fst (render_conditionBars ICONS c) ! i) = JS_undefined
         \<and> (\<not> icons c \<longrightarrow>
              seg_child (fst (render_conditionBars ICONS c) ! i)
                = Condition_label JS_undefined))
      \<and> (\<forall>m. Object_prototype key = Some m \<longrightarrow>
           data_tippy_content (fst (render_conditionBars ICONS c) ! i) = m)"
    if "i < length (conditions c) \<and> fst (conditions c ! i) = key" for i
  proof -
    from that have i: "i < length (conditions c)" and k: "fst (conditions c ! i) = key"
      by blast+
    from render_conditionBars_segment [OF i, of ICONS] k
    have "seg_class (fst (render_conditionBars ICONS c) ! i) = key"
      and tip: "data_tippy_content (fst (render_conditionBars ICONS c) ! i)
        = js_get (labels c) key"
      and child: "\<not> icons c \<longrightarrow> seg_child (fst (render_conditionBars ICONS c) ! i)
        = Condition_label (js_get (labels c) key)"
      by simp_all
    moreover have "Object_prototype key = None \<longrightarrow> js_get (labels c) key = JS_undefined"
      using absent by (simp add: js_get_absent)
    moreover have "\<forall>m. Object_prototype key = Some m \<longrightarrow> js_get (labels c) key = m"
      using absent by (simp add: js_get_absent)
    ultimately show ?thesis
      using no_string by simp
  qed
  have returns: "\<exists>r. render ICONS c = Inr r"
    if "length (temperatures c) \<le> length (wind c)
      \<and> length (temperatures c) \<le> length (precipitation c)"
    using that by (intro render_total) auto
  show ?thesis
    by (rule conjI, rule render_conditionBars_length,
        rule conjI, (rule allI impI)+, erule segment,
        rule conjI, (rule allI impI)+, erule render_conditionBars,
        rule impI, erule returns)
qed

theorem unknown_label_key_witness:
  "labels hazy_example ''hazy'' = None
   \<and> Object_prototype ''hazy'' = None
   \<and> map seg_class (fst (render_conditionBars icons_example hazy_example)) = [''hazy'']
   \<and> map data_tippy_content (fst (render_conditionBars icons_example hazy_example))
       = [JS_undefined]
   \<and> (\<exists>r. render icons_example hazy_example = Inr r)
   \<and> labels inherited_example ''constructor'' = None
   \<and> Object_prototype ''constructor'' = Some (JS_function ''Object'')
   \<and> map data_tippy_content (fst (render_conditionBars icons_example inherited_example))
       = [JS_function ''Object'']"
proof -
  have absent: "labels hazy_example ''hazy'' = None"
    "labels inherited_example ''constructor'' = None"
    by (simp_all add: hazy_example_def inherited_example_def bar_example_def)
  have proto: "Object_prototype ''hazy'' = None"
    "Object_prototype ''constructor'' = Some (JS_function ''Object'')"
    by (simp_all add: Object_prototype_def)
  have one: "conditions hazy_example = [(''hazy'', 1)]" "temperatures hazy_example = []"
    "conditions inherited_example = [(''constructor'', 1)]"
    by (simp_all add: hazy_example_def inherited_example_def bar_example_def)
  note hazy = unknown_label_key [OF absent(1), of icons_example]
  note inh = unknown_label_key [OF absent(2), of icons_example]
  from hazy one proto(1) absent(1)
  have "length (fst (render_conditionBars icons_example hazy_example)) = 1"
    and "seg_class (fst (render_conditionBars icons_example hazy_example) ! 0) = ''hazy''"
    and "data_tippy_content (fst (render_conditionBars icons_example hazy_example) ! 0)
      = JS_undefined"
    and ret: "\<exists>r. render icons_example hazy_example = Inr r"
    by (simp_all add: js_get_absent)
  then have first: "map seg_class (fst (render_conditionBars icons_example hazy_example))
      = [''hazy'']"
    "map data_tippy_content (fst (render_conditionBars icons_example hazy_example))
      = [JS_undefined]"
    by (cases "fst (render_conditionBars icons_example hazy_example)"; simp)+
  from inh one proto(2) absent(2)
  have "length (fst (render_conditionBars icons_example inherited_example)) = 1"
    and "data_tippy_content (fst (render_conditionBars icons_example inherited_example) ! 0)
      = JS_function ''Object''"
    by (simp_all add: js_get_absent)
  then have second: "map data_tippy_content
      (fst (render_conditionBars icons_example inherited_example)) = [JS_function ''Object'']"
    by (cases "fst (render_conditionBars icons_example inherited_example)") simp_all
  from absent proto first ret second show ?thesis
    by simp
qed

subsection \<open>Claim C7: the color overrides\<close>

lemma render_colorStyles:
  "render ICONS c = Inr r \<Longrightarrow>
   colorStyles r = (case colors c of None \<Rightarrow> None | Some cm \<Rightarrow> getColorStyles cm)"
  by (auto simp: render_Inr_iff)

text \<open>
  Claim C7. The style block that render emits is a function of the color map alone: two
  renders with the same map, whatever else differs, emit the same block. An absent map
  and an empty map emit no block. The map with the one entry sunny, \<^verbatim>\<open>#ffcc00\<close> emits
  the single declaration \<^verbatim>\<open>--color-sunny: #ffcc00;\<close>; in general a map that is not
  empty emits one declaration for each entry, joined by spaces.
\<close>

theorem color_styles_emission:
  "(\<forall>r r'. render ICONS c = Inr r \<and> render ICONS' c' = Inr r' \<and> colors c = colors c' \<longrightarrow>
       colorStyles r = colorStyles r')
   \<and> (\<forall>r. render ICONS c = Inr r \<and> (colors c = None \<or> colors c = Some []) \<longrightarrow>
         colorStyles r = None)
   \<and> (\<forall>r. render ICONS c = Inr r \<and> colors c = Some [(''sunny'', ''#ffcc00'')] \<longrightarrow>
         colorStyles r = Some ''--color-sunny: #ffcc00;'')
   \<and> color_vars [(''sunny'', ''#ffcc00'')] = [''--color-sunny: #ffcc00;'']
   \<and> getColorStyles [] = None
   \<and> (\<forall>cm. cm \<noteq> [] \<longrightarrow>
         getColorStyles cm = Some (join_space (color_vars cm))
       \<and> length (color_vars cm) = length cm)"
proof -
  have same: "colorStyles r = colorStyles r'"
    if "render ICONS c = Inr r" "render ICONS' c' = Inr r'" "colors c = colors c'" for r r'
    using that by (simp add: render_colorStyles)
  have none: "colorStyles r = None"
    if "render ICONS c = Inr r" "colors c = None \<or> colors c = Some []" for r
    using that by (auto simp: render_colorStyles getColorStyles_def)
  have sunny: "colorStyles r = Some ''--color-sunny: #ffcc00;''"
    if "render ICONS c = Inr r" "colors c = Some [(''sunny'', ''#ffcc00'')]" for r
    using that by (simp add: render_colorStyles getColorStyles_def color_vars_def)
  have vars: "color_vars [(''sunny'', ''#ffcc00'')] = [''--color-sunny: #ffcc00;'']"
    by (simp add: color_vars_def)
  have empty: "getColorStyles [] = None"
    by (simp add: getColorStyles_def)
  have filled: "getColorStyles cm = Some (join_space (color_vars cm))
      \<and> length (color_vars cm) = length cm" if "cm \<noteq> []" for cm
    using that by (simp add: getColorStyles_def color_vars_def)
  from same none sunny vars empty filled show ?thesis
    by blast
qed

theorem color_styles_emission_witness:
  "colors sunny_colors_example = Some [(''sunny'', ''#ffcc00'')]
   \<and> (\<exists>r. render Map.empty sunny_colors_example = Inr r
          \<and> colorStyles r = Some ''--color-sunny: #ffcc00;'')
   \<and> colors bar_example = None
   \<and> (\<exists>r. render Map.empty bar_example = Inr r \<and> colorStyles r = None)"
proof -
  have sunny: "colors sunny_colors_example = Some [(''sunny'', ''#ffcc00'')]"
    and none: "colors bar_example = None"
    by (simp_all add: sunny_colors_example_def bar_example_def)
  have "\<exists>r. render Map.empty sunny_colors_example = Inr r"
    by (intro render_total) (simp add: sunny_colors_example_def bar_example_def)
  then obtain r1 where r1: "render Map.empty sunny_colors_example = Inr r1" ..
  have "\<exists>r. render Map.empty bar_example = Inr r"
    by (intro render_total) (simp add: bar_example_def)
  then obtain r2 where r2: "render Map.empty bar_example = Inr r2" ..
  note first = color_styles_emission [of Map.empty sunny_colors_example Map.empty
      sunny_colors_example, THEN conjunct2, THEN conjunct2, THEN conjunct1, rule_format]
  note second = color_styles_emission [of Map.empty bar_example Map.empty bar_example,
      THEN conjunct2, THEN conjunct1, rule_format]
  have "colorStyles r1 = Some ''--color-sunny: #ffcc00;''"
    using r1 sunny by (intro first conjI)
  moreover have "colorStyles r2 = None"
    using r2 none by (intro second conjI disjI1)
  ultimately show ?thesis
    using r1 r2 sunny none by (intro conjI exI [of _ r1] exI [of _ r2])
qed

subsection \<open>Claim C9: the tooltips after an update\<close>

lemma fold_destroy_next_id: "next_id (fold destroy ts w) = next_id w"
  by (induction ts arbitrary: w) (simp_all add: destroy_def)

lemma fold_destroy_calls:
  "calls (fold destroy ts w) = calls w @ map (\<lambda>t. Destroy (tip_id t)) ts"
  by (induction ts arbitrary: w) (simp_all add: destroy_def)

lemma fold_destroy_alive:
  "alive (fold destroy ts w) = filter (\<lambda>u. tip_id u \<notin> tip_id ` set ts) (alive w)"
proof (induction ts arbitrary: w)
  case Nil
  show ?case by simp
next
  case (Cons t ts)
  have "alive (fold destroy (t # ts) w)
      = filter (\<lambda>u. tip_id u \<notin> tip_id ` set ts) (filter (\<lambda>u. tip_id u \<noteq> tip_id t) (alive w))"
    by (simp add: Cons.IH destroy_def)
  also have "\<dots> = filter (\<lambda>u. tip_id u \<notin> tip_id ` set (t # ts)) (alive w)"
    by (auto intro: filter_cong)
  finally show ?case .
qed

lemma tippy_result:
  "tippy els w = (ts, w') \<Longrightarrow>
     map reference ts = els
   \<and> map tip_id ts = [next_id w ..< next_id w + length els]
   \<and> next_id w' = next_id w + length els
   \<and> alive w' = alive w @ ts
   \<and> calls w' = calls w @ map (\<lambda>t. Create (tip_id t) (reference t)) ts"
proof (induction els arbitrary: w ts w')
  case Nil
  then show ?case by auto
next
  case (Cons el els)
  let ?t = "\<lparr>tip_id = next_id w, reference = el\<rparr>"
  let ?w = "w\<lparr>next_id := next_id w + 1, alive := alive w @ [?t],
              calls := calls w @ [Create (next_id w) el]\<rparr>"
  obtain ts0 w0 where rest: "tippy els ?w = (ts0, w0)"
    by (cases "tippy els ?w")
  with Cons.prems have ts: "ts = ?t # ts0" and w': "w' = w0"
    by (simp_all add: Let_def)
  have ids: "[next_id w ..< next_id w + length (el # els)]
      = next_id w # [next_id ?w ..< next_id ?w + length els]"
    by (simp add: upt_conv_Cons del: upt_Suc)
  from Cons.IH [OF rest] ts w' show ?case
    unfolding ids by simp
qed


lemma tips_fresh_iff:
  "tips_fresh (ts, w) \<longleftrightarrow> (\<forall>t \<in> set ts \<union> set (alive w). tip_id t < next_id w)"
  by (auto simp: tips_fresh_def list_all_iff)

lemma update_Inr:
  "render ICONS c = Inr r \<Longrightarrow>
   update ICONS c (ts, w) = Inr (tippy (bar_elements r) (fold destroy ts w))"
  by (simp add: update_def Let_def)

lemma update_effect:
  assumes fresh: "tips_fresh (tips, w)" and rendered: "render ICONS c = Inr r"
  shows "\<exists>tips' w'. update ICONS c (tips, w) = Inr (tips', w')
           \<and> map reference tips' = bar_elements r
           \<and> length tips' = length (conditions c)
           \<and> calls w' = calls w @ map (\<lambda>t. Destroy (tip_id t)) tips
                           @ map (\<lambda>t. Create (tip_id t) (reference t)) tips'
           \<and> alive w' = filter (\<lambda>u. tip_id u \<notin> tip_id ` set tips) (alive w) @ tips'
           \<and> (alive w = tips \<longrightarrow> alive w' = tips')
           \<and> (\<forall>t \<in> set tips. tip_id t \<notin> tip_id ` set (alive w'))
           \<and> tip_id ` set tips \<inter> tip_id ` set tips' = {}
           \<and> distinct (map tip_id tips')
           \<and> tips_fresh (tips', w')"
proof -
  obtain tips' w' where made: "tippy (bar_elements r) (fold destroy tips w) = (tips', w')"
    by (cases "tippy (bar_elements r) (fold destroy tips w)")
  have upd: "update ICONS c (tips, w) = Inr (tips', w')"
    by (simp add: update_Inr [OF rendered] made)
  from tippy_result [OF made]
  have refs: "map reference tips' = bar_elements r"
    and ids: "map tip_id tips' = [next_id w ..< next_id w + length (bar_elements r)]"
    and next': "next_id w' = next_id w + length (bar_elements r)"
    and alive': "alive w' = filter (\<lambda>u. tip_id u \<notin> tip_id ` set tips) (alive w) @ tips'"
    and calls': "calls w' = calls w @ map (\<lambda>t. Destroy (tip_id t)) tips
        @ map (\<lambda>t. Create (tip_id t) (reference t)) tips'"
    by (simp_all add: fold_destroy_next_id fold_destroy_alive fold_destroy_calls)
  have "length tips' = length (bar_elements r)"
    using refs by (metis length_map)
  then have len: "length tips' = length (conditions c)"
    by (simp add: bar_elements_def render_conditionBars [OF rendered] render_conditionBars_length)
  have old: "tip_id t < next_id w" if "t \<in> set tips \<union> set (alive w)" for t
    using fresh that by (simp add: tips_fresh_iff)
  have new: "next_id w \<le> tip_id t \<and> tip_id t < next_id w'" if "t \<in> set tips'" for t
  proof -
    from that have "tip_id t \<in> set (map tip_id tips')"
      by simp
    then show ?thesis
      unfolding ids next' by simp
  qed
  have apart: "tip_id ` set tips \<inter> tip_id ` set tips' = {}"
    using old new by fastforce
  have destroyed: "tip_id t \<notin> tip_id ` set (alive w')" if "t \<in> set tips" for t
  proof
    assume "tip_id t \<in> tip_id ` set (alive w')"
    then obtain u where u: "u \<in> set (alive w')" "tip_id u = tip_id t"
      by auto
    from u(1) consider "u \<in> set (alive w)" "tip_id u \<notin> tip_id ` set tips" | "u \<in> set tips'"
      unfolding alive' by auto
    then show False
    proof cases
      case 1
      with u(2) that show False by auto
    next
      case 2
      with new [of u] old [of t] u(2) that show False by simp
    qed
  qed
  have only: "alive w' = tips'" if "alive w = tips"
  proof -
    have "filter (\<lambda>u. tip_id u \<notin> tip_id ` set tips) tips = []"
      by (auto simp: filter_empty_conv)
    with that show ?thesis
      unfolding alive' by simp
  qed
  have dist: "distinct (map tip_id tips')"
    unfolding ids by simp
  have "tip_id t < next_id w'" if "t \<in> set tips' \<union> set (alive w')" for t
    using that old [of t] new [of t] unfolding alive' next' by auto
  then have fresh': "tips_fresh (tips', w')"
    by (simp add: tips_fresh_iff)
  from upd refs len calls' alive' only destroyed apart dist fresh' show ?thesis
    by blast
qed


lemma update_keeps_invariant:
  assumes "tips_fresh st" "alive (snd st) = fst st" "update ICONS c st = Inr st'"
  shows "tips_fresh st' \<and> alive (snd st') = fst st'"
proof -
  from assms(3) obtain r where r: "render ICONS c = Inr r"
    by (auto simp: update_def split: sum.splits)
  from assms(1) have "tips_fresh (fst st, snd st)"
    by simp
  from update_effect [OF this r] assms(2,3) show ?thesis
    by auto
qed

lemma updates_invariant:
  "tips_fresh st \<Longrightarrow> alive (snd st) = fst st \<Longrightarrow>
   tips_fresh (updates ICONS cs st) \<and> alive (snd (updates ICONS cs st)) = fst (updates ICONS cs st)"
proof (induction cs arbitrary: st)
  case Nil
  then show ?case by simp
next
  case (Cons c cs)
  show ?case
  proof (cases "update ICONS c st")
    case (Inl e)
    with Cons show ?thesis by simp
  next
    case (Inr st')
    with update_keeps_invariant [OF Cons.prems Inr] Cons.IH [of st'] show ?thesis
      by simp
  qed
qed

lemma updates_from_no_tips:
  "tips_fresh (updates ICONS cs no_tips)
   \<and> alive (snd (updates ICONS cs no_tips)) = fst (updates ICONS cs no_tips)"
  by (rule updates_invariant) (simp_all add: no_tips_def tips_fresh_def)

text \<open>
  Claim C9. Whenever render returns, update returns too, and then: the calls it makes to
  the tooltip library are the destruction of every stored instance followed by the
  creation of the new ones, so each instance of the previous update is destroyed before
  any new one is made; the instances stored afterwards are the new ones, one for each
  segment of the bar just rendered and in their order; no stored instance of before is
  alive afterwards or is among the new ones. This holds for stored instances whose
  identifiers the library has already given out, which is the case after any sequence of
  updates of a new element; after such a sequence the living instances are exactly the
  stored ones.
\<close>

theorem update_rebuilds_tooltips:
  "(tips_fresh (tips, w) \<and> render ICONS c = Inr r \<longrightarrow>
      (\<exists>tips' w'. update ICONS c (tips, w) = Inr (tips', w')
         \<and> map reference tips' = bar_elements r
         \<and> length tips' = length (conditions c)
         \<and> calls w' = calls w @ map (\<lambda>t. Destroy (tip_id t)) tips
                         @ map (\<lambda>t. Create (tip_id t) (reference t)) tips'
         \<and> alive w' = filter (\<lambda>u. tip_id u \<notin> tip_id ` set tips) (alive w) @ tips'
         \<and> (alive w = tips \<longrightarrow> alive w' = tips')
         \<and> (\<forall>t \<in> set tips. tip_id t \<notin> tip_id ` set (alive w'))
         \<and> tip_id ` set tips \<inter> tip_id ` set tips' = {}
         \<and> distinct (map tip_id tips')
         \<and> tips_fresh (tips', w')))
   \<and> tips_fresh (updates ICONS' cs no_tips)
   \<and> alive (snd (updates ICONS' cs no_tips)) = fst (updates ICONS' cs no_tips)"
proof -
  have step: "\<exists>tips' w'. update ICONS c (tips, w) = Inr (tips', w')
         \<and> map reference tips' = bar_elements r
         \<and> length tips' = length (conditions c)
         \<and> calls w' = calls w @ map (\<lambda>t. Destroy (tip_id t)) tips
                         @ map (\<lambda>t. Create (tip_id t) (reference t)) tips'
         \<and> alive w' = filter (\<lambda>u. tip_id u \<notin> tip_id ` set tips) (alive w) @ tips'
         \<and> (alive w = tips \<longrightarrow> alive w' = tips')
         \<and> (\<forall>t \<in> set tips. tip_id t \<notin> tip_id ` set (alive w'))
         \<and> tip_id ` set tips \<inter> tip_id ` set tips' = {}
         \<and> distinct (map tip_id tips')
         \<and> tips_fresh (tips', w')"
    if "tips_fresh (tips, w) \<and> render ICONS c = Inr r"
    using that by (intro update_effect) simp_all
  from step updates_from_no_tips [of ICONS' cs] show ?thesis
    by (intro conjI impI) simp_all
qed

lemma first_update: "update Map.empty bar_example no_tips = Inr two_tips"
  by (simp add: update_def no_tips_def two_tips_def bar_elements_def bar_eval)

theorem update_rebuilds_tooltips_witness:
  "update Map.empty bar_example no_tips = Inr two_tips
   \<and> tips_fresh two_tips
   \<and> (\<exists>r. render Map.empty hazy_example = Inr r)
   \<and> (\<exists>tips' w'. update Map.empty hazy_example two_tips = Inr (tips', w')
         \<and> length tips' = 1
         \<and> calls w' = calls (snd two_tips) @ [Destroy 0, Destroy 1]
                         @ map (\<lambda>t. Create (tip_id t) (reference t)) tips'
         \<and> alive w' = tips')"
proof -
  have fresh: "tips_fresh (fst two_tips, snd two_tips)"
    by (simp add: tips_fresh_def two_tips_def Let_def)
  have "\<exists>r. render Map.empty hazy_example = Inr r"
    by (intro render_total) (simp add: hazy_example_def bar_example_def)
  then obtain r where r: "render Map.empty hazy_example = Inr r" ..
  have one: "length (conditions hazy_example) = 1"
    by (simp add: hazy_example_def bar_example_def)
  have old: "map (\<lambda>t. Destroy (tip_id t)) (fst two_tips) = [Destroy 0, Destroy 1]"
    by (simp add: two_tips_def Let_def)
  have gone: "filter (\<lambda>u. tip_id u \<notin> tip_id ` set (fst two_tips)) (alive (snd two_tips)) = []"
    by (simp add: two_tips_def Let_def)
  from update_rebuilds_tooltips [of "fst two_tips" "snd two_tips" Map.empty hazy_example r]
    fresh r
  obtain tips' w' where
    "update Map.empty hazy_example (fst two_tips, snd two_tips) = Inr (tips', w')"
    "length tips' = length (conditions hazy_example)"
    "calls w' = calls (snd two_tips) @ map (\<lambda>t. Destroy (tip_id t)) (fst two_tips)
        @ map (\<lambda>t. Create (tip_id t) (reference t)) tips'"
    "alive w' = filter (\<lambda>u. tip_id u \<notin> tip_id ` set (fst two_tips)) (alive (snd two_tips))
        @ tips'"
    by blast
  then have "update Map.empty hazy_example two_tips = Inr (tips', w')
      \<and> length tips' = 1
      \<and> calls w' = calls (snd two_tips) @ [Destroy 0, Destroy 1]
          @ map (\<lambda>t. Create (tip_id t) (reference t)) tips'
      \<and> alive w' = tips'"
    unfolding old gone one by simp
  then have "\<exists>tips' w'. update Map.empty hazy_example two_tips = Inr (tips', w')
      \<and> length tips' = 1
      \<and> calls w' = calls (snd two_tips) @ [Destroy 0, Destroy 1]
          @ map (\<lambda>t. Create (tip_id t) (reference t)) tips'
      \<and> alive w' = tips'"
    by blast
  with first_update fresh r show ?thesis
    by simp
qed

end
